theory Spec2Isabelle
  imports
    Main
    "HOL-Library.Char_ord"
    "HOL-Library.List_Lexorder"
    "HOL-Library.Multiset"
begin

section \<open>Data model\<close>

text \<open>
  \<^verbatim>\<open>type Item struct { ID int; Color, Shape, Category string }\<close>
  (package \<^verbatim>\<open>itemstore\<close>; the \<^verbatim>\<open>Item\<close> of package \<^verbatim>\<open>main\<close> has the same four fields).
  A Go string is a sequence of bytes, here a \<^typ>\<open>string\<close>; with the orders of
  \<^verbatim>\<open>Char_ord\<close> and \<^verbatim>\<open>List_Lexorder\<close> the order \<open><\<close> on it is Go's
  bytewise lexicographic comparison. \<^verbatim>\<open>ID\<close> is only ever compared with 0, so an
  unbounded \<^typ>\<open>int\<close> stands for Go's \<^verbatim>\<open>int\<close>.
\<close>

record Item =
  ID :: int
  Color :: string
  Shape :: string
  Category :: string

text \<open>\<^verbatim>\<open>type ItemStore struct { items []Item }\<close>\<close>

record ItemStore =
  items :: "Item list"

text \<open>
  The errors of \<^verbatim>\<open>Validate\<close> and \<^verbatim>\<open>New\<close>, built in the source with
  \<^verbatim>\<open>fmt.Errorf\<close>:
  \<^item> \<open>InvalidItemID n\<close>: \<^verbatim>\<open>"invalid item ID: %d"\<close>;
  \<^item> \<open>EmptyFields n\<close>: \<^verbatim>\<open>"item %d has empty fields"\<close>;
  \<^item> \<open>InvalidItemAtIndex i e\<close>: \<^verbatim>\<open>"invalid item at index %d: %w"\<close>, wrapping \<open>e\<close>.
\<close>

datatype error =
    InvalidItemID int
  | EmptyFields int
  | InvalidItemAtIndex nat error

section \<open>Whitespace\<close>

text \<open>
  \<^verbatim>\<open>strings.TrimSpace\<close> removes leading and trailing white space as defined by
  Unicode (\<^verbatim>\<open>unicode.IsSpace\<close>). On the UTF-8 bytes of a Go string the white space
  runes are the byte sequences below: tab, line feed, vertical tab, form feed, carriage
  return, space, U+0085, U+00A0, U+1680, U+2000 to U+200A, U+2028, U+2029, U+202F,
  U+205F and U+3000.
\<close>

definition white_space :: "string list" where
  "white_space =
    [[CHR 0x09], [CHR 0x0A], [CHR 0x0B], [CHR 0x0C], [CHR 0x0D], [CHR 0x20],
     [CHR 0xC2, CHR 0x85], [CHR 0xC2, CHR 0xA0],
     [CHR 0xE1, CHR 0x9A, CHR 0x80],
     [CHR 0xE2, CHR 0x80, CHR 0x80], [CHR 0xE2, CHR 0x80, CHR 0x81],
     [CHR 0xE2, CHR 0x80, CHR 0x82], [CHR 0xE2, CHR 0x80, CHR 0x83],
     [CHR 0xE2, CHR 0x80, CHR 0x84], [CHR 0xE2, CHR 0x80, CHR 0x85],
     [CHR 0xE2, CHR 0x80, CHR 0x86], [CHR 0xE2, CHR 0x80, CHR 0x87],
     [CHR 0xE2, CHR 0x80, CHR 0x88], [CHR 0xE2, CHR 0x80, CHR 0x89],
     [CHR 0xE2, CHR 0x80, CHR 0x8A],
     [CHR 0xE2, CHR 0x80, CHR 0xA8], [CHR 0xE2, CHR 0x80, CHR 0xA9],
     [CHR 0xE2, CHR 0x80, CHR 0xAF],
     [CHR 0xE2, CHR 0x81, CHR 0x9F],
     [CHR 0xE3, CHR 0x80, CHR 0x80]]"

text \<open>The white space rune a string starts with, if any.\<close>

definition leading_space :: "string \<Rightarrow> string option" where
  "leading_space s = find (\<lambda>w. take (length w) s = w) white_space"

lemma leading_space_length:
  "leading_space s = Some w \<Longrightarrow> 0 < length w \<and> length w \<le> length s"
proof -
  assume a: "leading_space s = Some w"
  then have m: "w \<in> set white_space" and t: "take (length w) s = w"
    by (auto simp: leading_space_def find_Some_iff)
  from m have "0 < length w"
    by (auto simp: white_space_def)
  moreover from t have "length (take (length w) s) = length w"
    by simp
  then have "length w \<le> length s"
    by simp
  ultimately show ?thesis by simp
qed

function TrimLeft :: "string \<Rightarrow> string" where
  "TrimLeft s =
     (case leading_space s of
        None \<Rightarrow> s
      | Some w \<Rightarrow> TrimLeft (drop (length w) s))"
  by pat_completeness auto
termination
proof (relation "measure length")
  show "wf (measure length)" by simp
next
  fix s w
  assume "leading_space s = Some w"
  from leading_space_length [OF this]
  have "length s - length w < length s"
    by arith
  then show "(drop (length w) s, s) \<in> measure length"
    by simp
qed

text \<open>
  Trailing white space is the same on the reversed bytes: a string ends with a white
  space rune exactly when its reversal starts with the reversed rune.
\<close>

definition trailing_space :: "string \<Rightarrow> string option" where
  "trailing_space s = find (\<lambda>w. take (length w) (rev s) = rev w) white_space"

lemma trailing_space_length:
  "trailing_space s = Some w \<Longrightarrow> 0 < length w \<and> length w \<le> length s"
proof -
  assume a: "trailing_space s = Some w"
  then have m: "w \<in> set white_space" and t: "take (length w) (rev s) = rev w"
    by (auto simp: trailing_space_def find_Some_iff)
  from m have "0 < length w"
    by (auto simp: white_space_def)
  moreover from t have "length (take (length w) (rev s)) = length (rev w)"
    by simp
  then have "length w \<le> length s"
    by simp
  ultimately show ?thesis by simp
qed

function TrimRight :: "string \<Rightarrow> string" where
  "TrimRight s =
     (case trailing_space s of
        None \<Rightarrow> s
      | Some w \<Rightarrow> TrimRight (take (length s - length w) s))"
  by pat_completeness auto
termination
proof (relation "measure length")
  show "wf (measure length)" by simp
next
  fix s w
  assume "trailing_space s = Some w"
  from trailing_space_length [OF this]
  have "length s - length w < length s"
    by arith
  then show "(take (length s - length w) s, s) \<in> measure length"
    by simp
qed

definition TrimSpace :: "string \<Rightarrow> string" where
  "TrimSpace s = TrimRight (TrimLeft s)"

section \<open>Validation and construction\<close>

text \<open>
  \<^verbatim>\<open>func (i Item) Validate() error\<close>. The receiver is a copy: the trimmed fields are
  only compared with the empty string. \<open>None\<close> is the \<^verbatim>\<open>nil\<close> error.
\<close>

definition Validate :: "Item \<Rightarrow> error option" where
  "Validate i =
     (if ID i \<le> 0 then Some (InvalidItemID (ID i))
      else
        let i = i\<lparr>Color := TrimSpace (Color i)\<rparr>;
            i = i\<lparr>Shape := TrimSpace (Shape i)\<rparr>;
            i = i\<lparr>Category := TrimSpace (Category i)\<rparr>
        in if Color i = [] \<or> Shape i = [] \<or> Category i = []
           then Some (EmptyFields (ID i))
           else None)"

text \<open>
  \<^verbatim>\<open>func New(items []Item) (*ItemStore, error)\<close>: the loop
  \<^verbatim>\<open>for i, item := range items\<close> returns at the first item whose validation
  fails; otherwise the store holds the slice it was given.
\<close>

fun New_loop :: "nat \<Rightarrow> Item list \<Rightarrow> error option" where
  "New_loop i [] = None"
| "New_loop i (item # rest) =
     (case Validate item of
        Some err \<Rightarrow> Some (InvalidItemAtIndex i err)
      | None \<Rightarrow> New_loop (Suc i) rest)"

definition New :: "Item list \<Rightarrow> error + ItemStore" where
  "New its =
     (case New_loop 0 its of
        Some err \<Rightarrow> Inl err
      | None \<Rightarrow> Inr \<lparr>items = its\<rparr>)"

section \<open>Attribute keys\<close>

text \<open>
  \<^verbatim>\<open>func getPropertyGetter(property string) (PropertyGetter, bool)\<close> of package
  \<^verbatim>\<open>main\<close>: \<open>None\<close> is the result \<^verbatim>\<open>(nil, false)\<close>.
\<close>

definition getPropertyGetter :: "string \<Rightarrow> (Item \<Rightarrow> string) option" where
  "getPropertyGetter property =
     (if property = ''color'' then Some (\<lambda>i. Color i)
      else if property = ''shape'' then Some (\<lambda>i. Shape i)
      else if property = ''category'' then Some (\<lambda>i. Category i)
      else None)"

section \<open>The store's queries\<close>

text \<open>
  A filter set is a Go \<^verbatim>\<open>map[string]string\<close>. It is modelled by the list of its
  entries in the order in which \<^verbatim>\<open>range\<close> visits them; Go leaves that order open,
  and the results below hold for every order. The entries of a Go map have pairwise
  distinct keys.

  \<open>Filter_matches\<close> is the inner loop \<^verbatim>\<open>for key, value := range filters\<close> for one
  item: \<open>False\<close> is \<^verbatim>\<open>continue ItemLoop\<close>, \<open>True\<close> is reaching the
  \<^verbatim>\<open>append\<close>. A key that is no case of the \<^verbatim>\<open>switch\<close> goes on to the next entry.
\<close>

fun Filter_matches :: "Item \<Rightarrow> (string \<times> string) list \<Rightarrow> bool" where
  "Filter_matches item [] = True"
| "Filter_matches item ((key, val) # rest) =
     (if key = ''color'' then
        (if Color item \<noteq> val then False else Filter_matches item rest)
      else if key = ''shape'' then
        (if Shape item \<noteq> val then False else Filter_matches item rest)
      else if key = ''category'' then
        (if Category item \<noteq> val then False else Filter_matches item rest)
      else Filter_matches item rest)"

fun Filter_loop :: "Item list \<Rightarrow> (string \<times> string) list \<Rightarrow> Item list \<Rightarrow> Item list" where
  "Filter_loop [] filters result = result"
| "Filter_loop (item # rest) filters result =
     (if Filter_matches item filters
      then Filter_loop rest filters (result @ [item])
      else Filter_loop rest filters result)"

text \<open>
  \<^verbatim>\<open>func (s *ItemStore) Filter(filters map[string]string) []Item\<close>, as the sequence
  of items read through the slice it returns.
\<close>

definition Filter :: "ItemStore \<Rightarrow> (string \<times> string) list \<Rightarrow> Item list" where
  "Filter s filters =
     (if length filters = 0 then items s
      else Filter_loop (items s) filters [])"

text \<open>
  \<^verbatim>\<open>func (s *ItemStore) GetUniqueValues(property string) []string\<close>. The loop keeps
  the set \<^verbatim>\<open>values\<close> of the strings seen and the slice \<^verbatim>\<open>result\<close>; the
  \<^verbatim>\<open>default\<close> case of the \<^verbatim>\<open>switch\<close> skips the item. \<^verbatim>\<open>sort.Strings\<close> sorts
  in increasing order; equal strings cannot be told apart, so \<^const>\<open>sort\<close> gives the
  slice any correct sort leaves.
\<close>

fun GetUniqueValues_loop ::
  "string \<Rightarrow> Item list \<Rightarrow> string set \<Rightarrow> string list \<Rightarrow> string list" where
  "GetUniqueValues_loop property [] values result = result"
| "GetUniqueValues_loop property (item # rest) values result =
     (case (if property = ''color'' then Some (Color item)
            else if property = ''shape'' then Some (Shape item)
            else if property = ''category'' then Some (Category item)
            else None) of
        None \<Rightarrow> GetUniqueValues_loop property rest values result
      | Some val \<Rightarrow>
          if val \<notin> values
          then GetUniqueValues_loop property rest (insert val values) (result @ [val])
          else GetUniqueValues_loop property rest values result)"

definition GetUniqueValues :: "ItemStore \<Rightarrow> string \<Rightarrow> string list" where
  "GetUniqueValues s property = sort (GetUniqueValues_loop property (items s) {} [])"

section \<open>Grouping\<close>

text \<open>
  \<^verbatim>\<open>type GroupedItems struct { GroupName string; Property string; Items []Item }\<close>
\<close>

record GroupedItems =
  GroupName :: string
  Property :: string
  Items :: "Item list"

text \<open>
  The map \<^verbatim>\<open>groupMap\<close> of \<^verbatim>\<open>groupItems\<close> is read back with \<^verbatim>\<open>range\<close>, so it is
  modelled by the list of its entries. \<open>groupMap_append m value item\<close> is the statement
  \<^verbatim>\<open>groupMap[value] = append(groupMap[value], item)\<close>: a key that is absent reads as
  the nil slice and gets a new entry.
\<close>

fun groupMap_append ::
  "(string \<times> Item list) list \<Rightarrow> string \<Rightarrow> Item \<Rightarrow> (string \<times> Item list) list" where
  "groupMap_append [] val item = [(val, [item])]"
| "groupMap_append ((k, xs) # m) val item =
     (if k = val then (k, xs @ [item]) # m
      else (k, xs) # groupMap_append m val item)"

definition build_groupMap :: "(Item \<Rightarrow> string) \<Rightarrow> Item list \<Rightarrow> (string \<times> Item list) list" where
  "build_groupMap getter its =
     foldl (\<lambda>groupMap item. groupMap_append groupMap (getter item) item) [] its"

text \<open>
  The second loop and the sort of \<^verbatim>\<open>groupItems\<close>, for the entries in the order
  \<open>entries\<close> in which \<^verbatim>\<open>range groupMap\<close> visits them. \<^verbatim>\<open>sort.Slice\<close> with the
  comparison \<^verbatim>\<open>result[i].GroupName < result[j].GroupName\<close> leaves the slice sorted
  by group name; it is modelled by \<^const>\<open>sort_key\<close>.
\<close>

definition sorted_groups :: "string \<Rightarrow> (string \<times> Item list) list \<Rightarrow> GroupedItems list" where
  "sorted_groups groupBy entries =
     sort_key GroupName
       (map (\<lambda>(val, its). \<lparr>GroupName = val, Property = groupBy, Items = its\<rparr>) entries)"

text \<open>
  \<^verbatim>\<open>func groupItems(items []Item, groupBy string) []GroupedItems\<close>, the version of
  package \<^verbatim>\<open>main\<close> that returns a slice of groups. The model visits the entries of
  \<^verbatim>\<open>groupMap\<close> in the order of their first insertion.
\<close>

definition groupItems :: "Item list \<Rightarrow> string \<Rightarrow> GroupedItems list" where
  "groupItems its groupBy =
     (case getPropertyGetter groupBy of
        None \<Rightarrow> [\<lparr>GroupName = ''All Items'', Property = groupBy, Items = its\<rparr>]
      | Some getter \<Rightarrow> sorted_groups groupBy (build_groupMap getter its))"

text \<open>
  \<^verbatim>\<open>func groupItems(items []itemstore.Item, groupBy string) map[string][]itemstore.Item\<close>,
  the version of the \<^verbatim>\<open>main\<close> that is built on the store. It returns the map itself,
  which is never iterated by the program, so it is a partial function here.
  \<open>grouped_append grouped k item\<close> is \<^verbatim>\<open>grouped[k] = append(grouped[k], item)\<close>.
\<close>

definition grouped_append ::
  "(string \<rightharpoonup> Item list) \<Rightarrow> string \<Rightarrow> Item \<Rightarrow> (string \<rightharpoonup> Item list)" where
  "grouped_append grouped k item =
     grouped(k \<mapsto> (case grouped k of None \<Rightarrow> [] | Some xs \<Rightarrow> xs) @ [item])"

definition groupItems_map :: "Item list \<Rightarrow> string \<Rightarrow> (string \<rightharpoonup> Item list)" where
  "groupItems_map its groupBy =
     (if groupBy = ''color'' then
        foldl (\<lambda>grouped item. grouped_append grouped (Color item) item) Map.empty its
      else if groupBy = ''shape'' then
        foldl (\<lambda>grouped item. grouped_append grouped (Shape item) item) Map.empty its
      else if groupBy = ''category'' then
        foldl (\<lambda>grouped item. grouped_append grouped (Category item) item) Map.empty its
      else Map.empty(''All'' \<mapsto> its))"

text \<open>
  A Go map has one entry for each key and no order: \<^verbatim>\<open>range\<close> visits every entry
  once, in an order the language leaves open. \<open>range_order m es\<close> says that \<open>es\<close> is
  such a visit of the map \<open>m\<close>.
\<close>

definition range_order :: "(string \<rightharpoonup> Item list) \<Rightarrow> (string \<times> Item list) list \<Rightarrow> bool" where
  "range_order m es \<longleftrightarrow> distinct (map fst es) \<and> map_of es = m"

text \<open>
  The filter step of the \<^verbatim>\<open>itemsHandler\<close> that works on the global slice
  \<^verbatim>\<open>items\<close> with one pair \<^verbatim>\<open>filterBy\<close>, \<^verbatim>\<open>filterValue\<close>: \<^verbatim>\<open>filteredItems\<close> starts
  as the nil slice and is appended to only when the getter exists.
\<close>

definition itemsHandler_filter :: "Item list \<Rightarrow> string \<Rightarrow> string \<Rightarrow> Item list" where
  "itemsHandler_filter its filterBy filterValue =
     (if filterBy \<noteq> [] \<and> filterValue \<noteq> [] then
        (case getPropertyGetter filterBy of
           Some getter \<Rightarrow> filter (\<lambda>item. getter item = filterValue) its
         | None \<Rightarrow> [])
      else its)"

section \<open>Slices and their backing arrays\<close>

text \<open>
  A Go slice is a view of a backing array: the array, the offset of the view in it, its
  length and its capacity. Two slices on the same array share their elements. The heap
  is the list of the backing arrays allocated so far, an array's address being its
  position; allocation puts a new array at the end.
\<close>

type_synonym heap = "Item list list"

record slice =
  array :: nat
  offset :: nat
  len :: nat
  cap :: nat

definition valid_slice :: "heap \<Rightarrow> slice \<Rightarrow> bool" where
  "valid_slice h s \<longleftrightarrow>
     array s < length h \<and> len s \<le> cap s \<and> offset s + cap s \<le> length (h ! array s)"

text \<open>The items seen through a slice.\<close>

definition slice_read :: "heap \<Rightarrow> slice \<Rightarrow> Item list" where
  "slice_read h s = take (len s) (drop (offset s) (h ! array s))"

text \<open>
  The assignment \<^verbatim>\<open>s[i] = v\<close>; \<open>None\<close> is the panic of an index out of range.
\<close>

definition slice_set :: "heap \<Rightarrow> slice \<Rightarrow> nat \<Rightarrow> Item \<Rightarrow> heap option" where
  "slice_set h s i v =
     (if i < len s then Some (h[array s := (h ! array s)[offset s + i := v]])
      else None)"

text \<open>
  \<^verbatim>\<open>make([]Item, n)\<close>: a new array of \<open>n\<close> zero items, and the slice of all of it.
\<close>

definition zero_Item :: Item where
  "zero_Item = \<lparr>ID = 0, Color = [], Shape = [], Category = []\<rparr>"

definition make_slice :: "heap \<Rightarrow> nat \<Rightarrow> heap \<times> slice" where
  "make_slice h n =
     (h @ [replicate n zero_Item], \<lparr>array = length h, offset = 0, len = n, cap = n\<rparr>)"

text \<open>
  \<^verbatim>\<open>copy(dst, src)\<close> copies the first \<open>min (len dst) (len src)\<close> elements of \<open>src\<close>,
  as they are before the copy, to the same positions of \<open>dst\<close>.
\<close>

fun store_items :: "heap \<Rightarrow> slice \<Rightarrow> nat \<Rightarrow> Item list \<Rightarrow> heap" where
  "store_items h dst i [] = h"
| "store_items h dst i (v # vs) =
     store_items (h[array dst := (h ! array dst)[offset dst + i := v]]) dst (Suc i) vs"

definition copy_slice :: "heap \<Rightarrow> slice \<Rightarrow> slice \<Rightarrow> heap" where
  "copy_slice h dst src =
     store_items h dst 0 (take (min (len dst) (len src)) (slice_read h src))"

text \<open>
  \<^verbatim>\<open>Filter\<close> on the heap, for a store whose field \<^verbatim>\<open>items\<close> is the slice \<open>s\<close>.
  With no filter the result is made by \<^verbatim>\<open>make\<close> and \<^verbatim>\<open>copy\<close>. Otherwise
  \<^verbatim>\<open>result\<close> starts as the nil slice and grows by \<^verbatim>\<open>append\<close>, which only ever
  touches arrays allocated by the appends themselves; the model allocates the final
  array at once, with the items that \<^const>\<open>Filter_loop\<close> collects.
\<close>

definition Filter_heap :: "heap \<Rightarrow> slice \<Rightarrow> (string \<times> string) list \<Rightarrow> heap \<times> slice" where
  "Filter_heap h s filters =
     (if length filters = 0 then
        let (h1, result) = make_slice h (len s);
            h2 = copy_slice h1 result s
        in (h2, result)
      else
        let result = Filter_loop (slice_read h s) filters []
        in (h @ [result],
            \<lparr>array = length h, offset = 0, len = length result, cap = length result\<rparr>))"

section \<open>Construction: properties\<close>


lemma Validate_None_iff:
  "Validate r = None \<longleftrightarrow>
     0 < ID r \<and> TrimSpace (Color r) \<noteq> [] \<and> TrimSpace (Shape r) \<noteq> []
       \<and> TrimSpace (Category r) \<noteq> []"
  by (auto simp: Validate_def Let_def)

lemma Validate_Some_iff:
  "Validate r = Some e \<longleftrightarrow>
     (if ID r \<le> 0 then e = InvalidItemID (ID r)
      else (TrimSpace (Color r) = [] \<or> TrimSpace (Shape r) = [] \<or> TrimSpace (Category r) = [])
           \<and> e = EmptyFields (ID r))"
  by (auto simp: Validate_def Let_def)

lemma TrimSpace_Nil: "TrimSpace [] = []"
  by (simp add: TrimSpace_def leading_space_def trailing_space_def white_space_def)

lemma New_loop_None_iff:
  "New_loop i its = None \<longleftrightarrow> (\<forall>r\<in>set its. Validate r = None)"
  by (induction its arbitrary: i) (auto split: option.splits)

lemma New_loop_first:
  "k < length its \<Longrightarrow> Validate (its ! k) = Some e \<Longrightarrow>
   (\<forall>j<k. Validate (its ! j) = None) \<Longrightarrow>
   New_loop i its = Some (InvalidItemAtIndex (i + k) e)"
proof (induction its arbitrary: i k)
  case Nil
  then show ?case by simp
next
  case (Cons a its)
  show ?case
  proof (cases k)
    case 0
    with Cons.prems show ?thesis by simp
  next
    case (Suc k')
    from Cons.prems Suc have a: "Validate a = None" by auto
    from Cons.prems Suc have "k' < length its" "Validate (its ! k') = Some e"
      "\<forall>j<k'. Validate (its ! j) = None" by auto
    from Cons.IH [OF this, of "Suc i"] a Suc show ?thesis by simp
  qed
qed

lemma New_Inr_iff:
  "New seed = Inr S \<longleftrightarrow> (\<forall>r\<in>set seed. Validate r = None) \<and> S = \<lparr>items = seed\<rparr>"
  using New_loop_None_iff [of 0 seed]
  by (auto simp: New_def split: option.splits)

text \<open>
  Claim C7. \<^const>\<open>New\<close> validates the records of the seed in order. When the record
  at index \<open>k\<close> is invalid (its id is not positive, or one of its attributes is empty
  after trimming) and every record before it is valid, construction fails with the
  error naming index \<open>k\<close> and the reason: the invalid id, checked first, or else the
  empty fields. No store is returned then. When every record is valid, the store
  holding the seed is returned. In particular a seed whose first record has id 0 fails
  with the error for index 0 and the invalid id 0.
\<close>

theorem New_first_invalid:
  "(\<forall>k. k < length seed \<longrightarrow>
      (ID (seed ! k) \<le> 0 \<or> TrimSpace (Color (seed ! k)) = []
        \<or> TrimSpace (Shape (seed ! k)) = [] \<or> TrimSpace (Category (seed ! k)) = []) \<longrightarrow>
      (\<forall>j<k. 0 < ID (seed ! j) \<and> TrimSpace (Color (seed ! j)) \<noteq> []
        \<and> TrimSpace (Shape (seed ! j)) \<noteq> [] \<and> TrimSpace (Category (seed ! j)) \<noteq> []) \<longrightarrow>
      New seed =
        Inl (InvalidItemAtIndex k
              (if ID (seed ! k) \<le> 0 then InvalidItemID (ID (seed ! k))
               else EmptyFields (ID (seed ! k)))))
   \<and> ((\<forall>r\<in>set seed. 0 < ID r \<and> TrimSpace (Color r) \<noteq> []
          \<and> TrimSpace (Shape r) \<noteq> [] \<and> TrimSpace (Category r) \<noteq> []) \<longrightarrow>
        New seed = Inr \<lparr>items = seed\<rparr>)
   \<and> (\<forall>r rest. seed = r # rest \<longrightarrow> ID r = 0 \<longrightarrow>
        New seed = Inl (InvalidItemAtIndex 0 (InvalidItemID 0)))"
proof (intro conjI allI impI)
  fix k
  assume k: "k < length seed"
    and bad: "ID (seed ! k) \<le> 0 \<or> TrimSpace (Color (seed ! k)) = []
        \<or> TrimSpace (Shape (seed ! k)) = [] \<or> TrimSpace (Category (seed ! k)) = []"
    and good: "\<forall>j<k. 0 < ID (seed ! j) \<and> TrimSpace (Color (seed ! j)) \<noteq> []
        \<and> TrimSpace (Shape (seed ! j)) \<noteq> [] \<and> TrimSpace (Category (seed ! j)) \<noteq> []"
  let ?e = "if ID (seed ! k) \<le> 0 then InvalidItemID (ID (seed ! k))
            else EmptyFields (ID (seed ! k))"
  from bad have "Validate (seed ! k) = Some ?e"
    by (auto simp: Validate_Some_iff)
  moreover from good have "\<forall>j<k. Validate (seed ! j) = None"
    by (simp add: Validate_None_iff)
  ultimately have "New_loop 0 seed = Some (InvalidItemAtIndex (0 + k) ?e)"
    using k by (intro New_loop_first)
  then show "New seed = Inl (InvalidItemAtIndex k ?e)"
    by (simp add: New_def)
next
  assume "\<forall>r\<in>set seed. 0 < ID r \<and> TrimSpace (Color r) \<noteq> []
          \<and> TrimSpace (Shape r) \<noteq> [] \<and> TrimSpace (Category r) \<noteq> []"
  then have "\<forall>r\<in>set seed. Validate r = None"
    by (simp add: Validate_None_iff)
  then show "New seed = Inr \<lparr>items = seed\<rparr>"
    by (simp add: New_Inr_iff)
next
  fix r rest
  assume "seed = r # rest" "ID r = 0"
  then show "New seed = Inl (InvalidItemAtIndex 0 (InvalidItemID 0))"
    by (simp add: New_def Validate_def)
qed




text \<open>\<^const>\<open>TrimSpace\<close> on the strings of the examples below.\<close>

lemma TrimSpace_examples:
  "TrimSpace ''red'' = ''red''"
  "TrimSpace ''blue'' = ''blue''"
  "TrimSpace ''circle'' = ''circle''"
  "TrimSpace ''square'' = ''square''"
  "TrimSpace ''A'' = ''A''"
  "TrimSpace ''B'' = ''B''"
  "TrimSpace '' '' = []"
  "TrimSpace '' red '' = ''red''"
  by code_simp+

theorem New_first_invalid_witness:
  "New [\<lparr>ID = 1, Color = ''red'', Shape = ''circle'', Category = ''A''\<rparr>,
        \<lparr>ID = 2, Color = '' '', Shape = ''square'', Category = ''A''\<rparr>,
        \<lparr>ID = 0, Color = ''red'', Shape = ''circle'', Category = ''A''\<rparr>]
     = Inl (InvalidItemAtIndex 1 (EmptyFields 2))
   \<and> New [\<lparr>ID = 1, Color = ''red'', Shape = ''circle'', Category = ''A''\<rparr>,
          \<lparr>ID = 2, Color = ''blue'', Shape = ''square'', Category = ''A''\<rparr>]
     = Inr \<lparr>items = [\<lparr>ID = 1, Color = ''red'', Shape = ''circle'', Category = ''A''\<rparr>,
          \<lparr>ID = 2, Color = ''blue'', Shape = ''square'', Category = ''A''\<rparr>]\<rparr>
   \<and> New [\<lparr>ID = 0, Color = ''red'', Shape = ''circle'', Category = ''A''\<rparr>]
     = Inl (InvalidItemAtIndex 0 (InvalidItemID 0))"
proof (intro conjI)
  let ?a = "\<lparr>ID = 1, Color = ''red'', Shape = ''circle'', Category = ''A''\<rparr>"
  let ?b = "\<lparr>ID = 2, Color = '' '', Shape = ''square'', Category = ''A''\<rparr>"
  let ?c = "\<lparr>ID = 0, Color = ''red'', Shape = ''circle'', Category = ''A''\<rparr>"
  let ?d = "\<lparr>ID = 2, Color = ''blue'', Shape = ''square'', Category = ''A''\<rparr>"
  have k: "1 < length [?a, ?b, ?c]" by simp
  have bad: "ID ([?a, ?b, ?c] ! 1) \<le> 0 \<or> TrimSpace (Color ([?a, ?b, ?c] ! 1)) = []
      \<or> TrimSpace (Shape ([?a, ?b, ?c] ! 1)) = []
      \<or> TrimSpace (Category ([?a, ?b, ?c] ! 1)) = []"
    by (simp add: TrimSpace_examples)
  have good: "\<forall>j<1. 0 < ID ([?a, ?b, ?c] ! j) \<and> TrimSpace (Color ([?a, ?b, ?c] ! j)) \<noteq> []
      \<and> TrimSpace (Shape ([?a, ?b, ?c] ! j)) \<noteq> []
      \<and> TrimSpace (Category ([?a, ?b, ?c] ! j)) \<noteq> []"
    by (simp add: TrimSpace_examples)
  from New_first_invalid [of "[?a, ?b, ?c]", THEN conjunct1, THEN spec, of 1,
      THEN mp, OF k, THEN mp, OF bad, THEN mp, OF good]
  show "New [?a, ?b, ?c] = Inl (InvalidItemAtIndex 1 (EmptyFields 2))"
    by simp
  have all: "\<forall>r\<in>set [?a, ?d]. 0 < ID r \<and> TrimSpace (Color r) \<noteq> []
          \<and> TrimSpace (Shape r) \<noteq> [] \<and> TrimSpace (Category r) \<noteq> []"
    by (simp add: TrimSpace_examples)
  from New_first_invalid [of "[?a, ?d]", THEN conjunct2, THEN conjunct1, THEN mp, OF all]
  show "New [?a, ?d] = Inr \<lparr>items = [?a, ?d]\<rparr>" .
  from New_first_invalid [of "[?c]", THEN conjunct2, THEN conjunct2, THEN spec, of ?c, THEN spec, of "[]"]
  show "New [?c] = Inl (InvalidItemAtIndex 0 (InvalidItemID 0))"
    by simp
qed

text \<open>
  Claim C5, as the code has it. The store of a successful construction holds the seed
  as it was given. Every record in it has a positive id, and its colour, shape and
  category are non-empty after trimming, so each holds a character that is not white
  space and is non-empty. The stored strings themselves are not trimmed.
\<close>

theorem New_records_valid:
  "New seed = Inr S \<Longrightarrow>
   items S = seed \<and>
   (\<forall>r\<in>set (items S).
     0 < ID r
     \<and> TrimSpace (Color r) \<noteq> [] \<and> TrimSpace (Shape r) \<noteq> [] \<and> TrimSpace (Category r) \<noteq> []
     \<and> Color r \<noteq> [] \<and> Shape r \<noteq> [] \<and> Category r \<noteq> [])"
  using TrimSpace_Nil by (auto simp: New_Inr_iff Validate_None_iff)

theorem New_records_valid_witness:
  "New [\<lparr>ID = 1, Color = '' red '', Shape = ''circle'', Category = ''A''\<rparr>]
     = Inr \<lparr>items = [\<lparr>ID = 1, Color = '' red '', Shape = ''circle'', Category = ''A''\<rparr>]\<rparr>
   \<and> items \<lparr>items = [\<lparr>ID = 1, Color = '' red '', Shape = ''circle'', Category = ''A''\<rparr>]\<rparr>
     = [\<lparr>ID = 1, Color = '' red '', Shape = ''circle'', Category = ''A''\<rparr>]
   \<and> TrimSpace (Color \<lparr>ID = 1, Color = '' red '', Shape = ''circle'', Category = ''A''\<rparr>) \<noteq> []
   \<and> Color \<lparr>ID = 1, Color = '' red '', Shape = ''circle'', Category = ''A''\<rparr> \<noteq> []"
proof -
  let ?r = "\<lparr>ID = 1, Color = '' red '', Shape = ''circle'', Category = ''A''\<rparr>"
  have n: "New [?r] = Inr \<lparr>items = [?r]\<rparr>"
    by (simp add: New_def Validate_def TrimSpace_examples)
  note t = New_records_valid [OF n]
  from t have 1: "items \<lparr>items = [?r]\<rparr> = [?r]"
    by (rule conjunct1)
  have m: "?r \<in> set (items \<lparr>items = [?r]\<rparr>)"
    by simp
  note u = t [THEN conjunct2, THEN bspec, OF m]
  from u have 2: "TrimSpace (Color ?r) \<noteq> []"
    by (elim conjE)
  from u have 3: "Color ?r \<noteq> []"
    by (elim conjE)
  from n 1 2 3 show ?thesis
    by (intro conjI)
qed

text \<open>
  A record whose colour has a leading and a trailing space is valid, and the store
  keeps the colour with both spaces.
\<close>

theorem New_keeps_untrimmed_counterexample:
  "New [\<lparr>ID = 1, Color = '' red '', Shape = ''circle'', Category = ''A''\<rparr>]
     = Inr \<lparr>items = [\<lparr>ID = 1, Color = '' red '', Shape = ''circle'', Category = ''A''\<rparr>]\<rparr>
   \<and> TrimSpace '' red '' \<noteq> '' red ''
   \<and> hd '' red '' = CHR '' '' \<and> last '' red '' = CHR '' ''"
  by (simp add: New_def Validate_def TrimSpace_examples)

text \<open>
  Claim C6, as the code has it. Construction checks each record on its own and never
  compares the ids of two records: the store holds the seed as given, so the ids in a
  constructed store are pairwise distinct exactly when the ids of the seed are.
\<close>

theorem New_ids_distinct_iff:
  "New seed = Inr S \<Longrightarrow>
   items S = seed \<and> (distinct (map ID (items S)) \<longleftrightarrow> distinct (map ID seed))"
proof -
  assume "New seed = Inr S"
  then have "S = \<lparr>items = seed\<rparr>"
    by (simp add: New_Inr_iff)
  then show ?thesis by simp
qed

theorem New_ids_distinct_iff_witness:
  "New [\<lparr>ID = 1, Color = ''red'', Shape = ''circle'', Category = ''A''\<rparr>,
        \<lparr>ID = 2, Color = ''blue'', Shape = ''square'', Category = ''A''\<rparr>]
     = Inr \<lparr>items = [\<lparr>ID = 1, Color = ''red'', Shape = ''circle'', Category = ''A''\<rparr>,
          \<lparr>ID = 2, Color = ''blue'', Shape = ''square'', Category = ''A''\<rparr>]\<rparr>
   \<and> distinct (map ID (items \<lparr>items = [\<lparr>ID = 1, Color = ''red'', Shape = ''circle'', Category = ''A''\<rparr>,
          \<lparr>ID = 2, Color = ''blue'', Shape = ''square'', Category = ''A''\<rparr>]\<rparr>))"
proof -
  have n: "New [\<lparr>ID = 1, Color = ''red'', Shape = ''circle'', Category = ''A''\<rparr>,
        \<lparr>ID = 2, Color = ''blue'', Shape = ''square'', Category = ''A''\<rparr>]
     = Inr \<lparr>items = [\<lparr>ID = 1, Color = ''red'', Shape = ''circle'', Category = ''A''\<rparr>,
          \<lparr>ID = 2, Color = ''blue'', Shape = ''square'', Category = ''A''\<rparr>]\<rparr>"
    by (simp add: New_def Validate_def TrimSpace_examples)
  from New_ids_distinct_iff [OF n] have "distinct (map ID (items \<lparr>items = [\<lparr>ID = 1, Color = ''red'', Shape = ''circle'', Category = ''A''\<rparr>,
          \<lparr>ID = 2, Color = ''blue'', Shape = ''square'', Category = ''A''\<rparr>]\<rparr>))"
    by simp
  with n show ?thesis by blast
qed

text \<open>Two valid records with the same id make a store.\<close>

theorem New_duplicate_ids_counterexample:
  "New [\<lparr>ID = 1, Color = ''red'', Shape = ''circle'', Category = ''A''\<rparr>,
        \<lparr>ID = 1, Color = ''blue'', Shape = ''square'', Category = ''B''\<rparr>]
     = Inr \<lparr>items = [\<lparr>ID = 1, Color = ''red'', Shape = ''circle'', Category = ''A''\<rparr>,
          \<lparr>ID = 1, Color = ''blue'', Shape = ''square'', Category = ''B''\<rparr>]\<rparr>
   \<and> \<not> distinct (map ID (items \<lparr>items = [\<lparr>ID = 1, Color = ''red'', Shape = ''circle'', Category = ''A''\<rparr>,
          \<lparr>ID = 1, Color = ''blue'', Shape = ''square'', Category = ''B''\<rparr>]\<rparr>))"
  by (simp add: New_def Validate_def TrimSpace_examples)


section \<open>Filtering: properties\<close>


lemma getPropertyGetter_Some_iff:
  "getPropertyGetter k = Some g \<longleftrightarrow>
     k = ''color'' \<and> g = Color \<or> k = ''shape'' \<and> g = Shape \<or> k = ''category'' \<and> g = Category"
  by (auto simp: getPropertyGetter_def)

lemma getPropertyGetter_None_iff:
  "getPropertyGetter k = None \<longleftrightarrow> k \<notin> {''color'', ''shape'', ''category''}"
  by (auto simp: getPropertyGetter_def)

lemma Filter_matches_Cons:
  "Filter_matches r ((k, v) # F) \<longleftrightarrow>
     (\<forall>g. getPropertyGetter k = Some g \<longrightarrow> g r = v) \<and> Filter_matches r F"
  by (simp add: getPropertyGetter_def)

lemma Filter_matches_iff:
  "Filter_matches r F \<longleftrightarrow>
     (\<forall>(k, v)\<in>set F. \<forall>g. getPropertyGetter k = Some g \<longrightarrow> g r = v)"
proof (induction F)
  case Nil
  show ?case by simp
next
  case (Cons e F)
  obtain k v where e: "e = (k, v)" by (cases e)
  show ?case
    unfolding e Filter_matches_Cons Cons.IH by auto
qed

lemma Filter_loop_filter:
  "Filter_loop its F result = result @ filter (\<lambda>r. Filter_matches r F) its"
  by (induction its arbitrary: result) auto

lemma Filter_filter:
  "Filter S F = filter (\<lambda>r. Filter_matches r F) (items S)"
  by (cases F) (simp_all add: Filter_def Filter_loop_filter)

lemma Filter_matches_restrict:
  "Filter_matches r (filter (\<lambda>(k, v). k \<in> {''color'', ''shape'', ''category''}) F)
     = Filter_matches r F"
proof (induction F)
  case Nil
  show ?case by simp
next
  case (Cons e F)
  obtain k v where e: "e = (k, v)" by (cases e)
  show ?case
    using Cons.IH by (simp add: e)
qed

lemma Filter_matches_unrecognized:
  "\<forall>(k, v)\<in>set F. k \<notin> {''color'', ''shape'', ''category''} \<Longrightarrow> Filter_matches r F"
proof (induction F)
  case Nil
  show ?case by simp
next
  case (Cons e F)
  obtain k v where e: "e = (k, v)" by (cases e)
  from Cons.prems have "Filter_matches r F"
    by (intro Cons.IH) simp
  with Cons.prems show ?case
    by (simp add: e)
qed

lemma Filter_empty: "Filter S [] = items S"
  by (simp add: Filter_def)

text \<open>
  Claim C1. For a non-empty filter set \<open>F\<close> whose keys are all among
  \<^verbatim>\<open>color\<close>, \<^verbatim>\<open>shape\<close> and \<^verbatim>\<open>category\<close>, \<^const>\<open>Filter\<close> returns exactly the
  records of the store, in store order, whose attribute equals the value of \<open>F\<close> at
  every key of \<open>F\<close>; every record of the store that is left out differs from \<open>F\<close> at
  some entry.
\<close>

theorem Filter_exact:
  assumes "F \<noteq> []"
    and "\<forall>(k, v)\<in>set F. k \<in> {''color'', ''shape'', ''category''}"
  shows "Filter S F =
           filter (\<lambda>r. \<forall>(k, v)\<in>set F. \<exists>g. getPropertyGetter k = Some g \<and> g r = v) (items S)
         \<and> (\<forall>r\<in>set (items S). r \<notin> set (Filter S F) \<longrightarrow>
               (\<exists>(k, v)\<in>set F. \<exists>g. getPropertyGetter k = Some g \<and> g r \<noteq> v))"
proof -
  have m: "Filter_matches r F \<longleftrightarrow>
      (\<forall>(k, v)\<in>set F. \<exists>g. getPropertyGetter k = Some g \<and> g r = v)" for r
    unfolding Filter_matches_iff using assms(2)
    by (fastforce simp: getPropertyGetter_def)
  have 1: "Filter S F =
      filter (\<lambda>r. \<forall>(k, v)\<in>set F. \<exists>g. getPropertyGetter k = Some g \<and> g r = v) (items S)"
    by (simp add: Filter_filter m)
  show ?thesis
  proof (intro conjI ballI impI)
    show "Filter S F =
      filter (\<lambda>r. \<forall>(k, v)\<in>set F. \<exists>g. getPropertyGetter k = Some g \<and> g r = v) (items S)"
      by (fact 1)
  next
    fix r
    assume "r \<in> set (items S)" "r \<notin> set (Filter S F)"
    then have "\<not> Filter_matches r F"
      by (simp add: Filter_filter)
    then obtain k v g where kv: "(k, v) \<in> set F"
      and g: "getPropertyGetter k = Some g" "g r \<noteq> v"
      by (auto simp: Filter_matches_iff)
    then show "\<exists>(k, v)\<in>set F. \<exists>g. getPropertyGetter k = Some g \<and> g r \<noteq> v"
      by force
  qed
qed


theorem Filter_exact_witness:
  "[(''color'', ''red''), (''shape'', ''square'')] \<noteq> []
   \<and> fst ` set [(''color'', ''red''), (''shape'', ''square'')]
       \<subseteq> {''color'', ''shape'', ''category''}
   \<and> Filter \<lparr>items =
        [\<lparr>ID = 1, Color = ''red'', Shape = ''circle'', Category = ''A''\<rparr>,
         \<lparr>ID = 2, Color = ''blue'', Shape = ''square'', Category = ''A''\<rparr>,
         \<lparr>ID = 3, Color = ''red'', Shape = ''square'', Category = ''B''\<rparr>,
         \<lparr>ID = 4, Color = ''green'', Shape = ''circle'', Category = ''B''\<rparr>]\<rparr>
        [(''color'', ''red''), (''shape'', ''square'')]
      = [\<lparr>ID = 3, Color = ''red'', Shape = ''square'', Category = ''B''\<rparr>]"
proof -
  let ?F = "[(''color'', ''red''), (''shape'', ''square'')]"
  let ?S = "\<lparr>items =
        [\<lparr>ID = 1, Color = ''red'', Shape = ''circle'', Category = ''A''\<rparr>,
         \<lparr>ID = 2, Color = ''blue'', Shape = ''square'', Category = ''A''\<rparr>,
         \<lparr>ID = 3, Color = ''red'', Shape = ''square'', Category = ''B''\<rparr>,
         \<lparr>ID = 4, Color = ''green'', Shape = ''circle'', Category = ''B''\<rparr>]\<rparr>"
  have h1: "?F \<noteq> []" by simp
  have h2: "\<forall>(k, v)\<in>set ?F. k \<in> {''color'', ''shape'', ''category''}" by simp
  from Filter_exact [OF h1 h2, of ?S, THEN conjunct1]
  have "Filter ?S ?F = [\<lparr>ID = 3, Color = ''red'', Shape = ''square'', Category = ''B''\<rparr>]"
    by (simp add: getPropertyGetter_def)
  moreover have "fst ` set ?F \<subseteq> {''color'', ''shape'', ''category''}"
    by simp
  ultimately show ?thesis
    using h1 by (intro conjI)
qed

text \<open>
  Claim C2, as the code has it. In the store's \<^const>\<open>Filter\<close> an entry whose key is
  not one of \<^verbatim>\<open>color\<close>, \<^verbatim>\<open>shape\<close>, \<^verbatim>\<open>category\<close> puts no constraint: filtering
  with \<open>F\<close> gives what filtering with the recognized entries of \<open>F\<close> gives, and a filter
  set of unrecognized keys only returns every record. The handler that filters the
  global list by one pair \<^verbatim>\<open>filterBy\<close>, \<^verbatim>\<open>filterValue\<close> does otherwise: for an
  unrecognized non-empty \<^verbatim>\<open>filterBy\<close> and a non-empty \<^verbatim>\<open>filterValue\<close> it keeps
  no record.
\<close>

theorem Filter_ignores_unrecognized:
  "Filter S F = Filter S (filter (\<lambda>(k, v). k \<in> {''color'', ''shape'', ''category''}) F)
   \<and> ((\<forall>(k, v)\<in>set F. k \<notin> {''color'', ''shape'', ''category''}) \<longrightarrow> Filter S F = items S)
   \<and> (filterBy \<noteq> [] \<and> filterValue \<noteq> [] \<and> filterBy \<notin> {''color'', ''shape'', ''category''} \<longrightarrow>
        itemsHandler_filter its filterBy filterValue = [])"
proof (intro conjI impI)
  show "Filter S F = Filter S (filter (\<lambda>(k, v). k \<in> {''color'', ''shape'', ''category''}) F)"
    by (simp only: Filter_filter Filter_matches_restrict)
next
  assume "\<forall>(k, v)\<in>set F. k \<notin> {''color'', ''shape'', ''category''}"
  then have "Filter_matches r F" for r
    by (rule Filter_matches_unrecognized)
  then show "Filter S F = items S"
    by (simp add: Filter_filter)
next
  assume "filterBy \<noteq> [] \<and> filterValue \<noteq> [] \<and> filterBy \<notin> {''color'', ''shape'', ''category''}"
  then show "itemsHandler_filter its filterBy filterValue = []"
    by (simp add: itemsHandler_filter_def getPropertyGetter_def)
qed

theorem Filter_ignores_unrecognized_witness:
  "''bogus'' \<notin> {''color'', ''shape'', ''category''}
   \<and> Filter \<lparr>items =
        [\<lparr>ID = 1, Color = ''red'', Shape = ''circle'', Category = ''A''\<rparr>,
         \<lparr>ID = 2, Color = ''blue'', Shape = ''square'', Category = ''A''\<rparr>]\<rparr>
        [(''bogus'', ''x'')]
      = [\<lparr>ID = 1, Color = ''red'', Shape = ''circle'', Category = ''A''\<rparr>,
         \<lparr>ID = 2, Color = ''blue'', Shape = ''square'', Category = ''A''\<rparr>]
   \<and> Filter \<lparr>items =
        [\<lparr>ID = 1, Color = ''red'', Shape = ''circle'', Category = ''A''\<rparr>,
         \<lparr>ID = 2, Color = ''blue'', Shape = ''square'', Category = ''A''\<rparr>]\<rparr>
        [(''bogus'', ''x''), (''color'', ''blue'')]
      = Filter \<lparr>items =
        [\<lparr>ID = 1, Color = ''red'', Shape = ''circle'', Category = ''A''\<rparr>,
         \<lparr>ID = 2, Color = ''blue'', Shape = ''square'', Category = ''A''\<rparr>]\<rparr>
        [(''color'', ''blue'')]
   \<and> (''bogus'' \<noteq> [] \<and> ''x'' \<noteq> [] \<and> ''bogus'' \<notin> {''color'', ''shape'', ''category''})
   \<and> itemsHandler_filter
        [\<lparr>ID = 1, Color = ''red'', Shape = ''circle'', Category = ''A''\<rparr>,
         \<lparr>ID = 2, Color = ''blue'', Shape = ''square'', Category = ''A''\<rparr>]
        ''bogus'' ''x'' = []"
proof -
  let ?its = "[\<lparr>ID = 1, Color = ''red'', Shape = ''circle'', Category = ''A''\<rparr>,
         \<lparr>ID = 2, Color = ''blue'', Shape = ''square'', Category = ''A''\<rparr>]"
  have h1: "\<forall>(k, v)\<in>set [(''bogus'', ''x'')]. k \<notin> {''color'', ''shape'', ''category''}"
    by simp
  have h2: "''bogus'' \<noteq> [] \<and> ''x'' \<noteq> [] \<and> ''bogus'' \<notin> {''color'', ''shape'', ''category''}"
    by simp
  note t = Filter_ignores_unrecognized [of "\<lparr>items = ?its\<rparr>" _ "''bogus''" "''x''" ?its]
  from t [of "[(''bogus'', ''x'')]", THEN conjunct2, THEN conjunct1, THEN mp, OF h1]
  have 1: "Filter \<lparr>items = ?its\<rparr> [(''bogus'', ''x'')] = ?its"
    by simp
  from t [of "[(''bogus'', ''x''), (''color'', ''blue'')]", THEN conjunct1]
  have 2: "Filter \<lparr>items = ?its\<rparr> [(''bogus'', ''x''), (''color'', ''blue'')]
      = Filter \<lparr>items = ?its\<rparr> [(''color'', ''blue'')]"
    by simp
  from t [of "[]", THEN conjunct2, THEN conjunct2, THEN mp, OF h2]
  have 3: "itemsHandler_filter ?its ''bogus'' ''x'' = []" .
  from h2 have 0: "''bogus'' \<notin> {''color'', ''shape'', ''category''}"
    by (elim conjE)
  from 0 1 2 h2 3 show ?thesis
    by (intro conjI) simp_all
qed

text \<open>
  In that handler the pair \<^verbatim>\<open>bogus\<close>, \<^verbatim>\<open>x\<close> removes the only record, while no
  filter at all keeps it.
\<close>

theorem itemsHandler_filter_unrecognized_counterexample:
  "itemsHandler_filter
     [\<lparr>ID = 1, Color = ''red'', Shape = ''circle'', Category = ''A''\<rparr>] ''bogus'' ''x'' = []
   \<and> itemsHandler_filter
     [\<lparr>ID = 1, Color = ''red'', Shape = ''circle'', Category = ''A''\<rparr>] [] []
     = [\<lparr>ID = 1, Color = ''red'', Shape = ''circle'', Category = ''A''\<rparr>]"
  by (simp add: itemsHandler_filter_def getPropertyGetter_def)

section \<open>Distinct values: properties\<close>


lemma GetUniqueValues_loop_default:
  "property \<notin> {''color'', ''shape'', ''category''} \<Longrightarrow>
   GetUniqueValues_loop property its values result = result"
  by (induction its arbitrary: "values" result) simp_all

lemma GetUniqueValues_loop_getter:
  assumes "getPropertyGetter property = Some g"
    and "values = set result" and "distinct result"
  shows "distinct (GetUniqueValues_loop property its values result)
         \<and> set (GetUniqueValues_loop property its values result) = set result \<union> g ` set its"
  using assms(2,3)
proof (induction its arbitrary: "values" result)
  case Nil
  then show ?case by simp
next
  case (Cons item rest)
  from assms(1) have sel:
    "(if property = ''color'' then Some (Color item)
      else if property = ''shape'' then Some (Shape item)
      else if property = ''category'' then Some (Category item)
      else None) = Some (g item)"
    by (auto simp: getPropertyGetter_def split: if_splits)
  show ?case
  proof (cases "g item \<in> values")
    case True
    then have "GetUniqueValues_loop property (item # rest) values result
        = GetUniqueValues_loop property rest values result"
      by (simp add: sel)
    moreover from True Cons.prems have "set result \<union> g ` set (item # rest) = set result \<union> g ` set rest"
      by auto
    ultimately show ?thesis
      using Cons.IH [OF Cons.prems] by simp
  next
    case False
    then have "GetUniqueValues_loop property (item # rest) values result
        = GetUniqueValues_loop property rest (insert (g item) values) (result @ [g item])"
      by (simp add: sel)
    moreover from False Cons.prems have "insert (g item) values = set (result @ [g item])"
      "distinct (result @ [g item])"
      by auto
    ultimately show ?thesis
      using Cons.IH [of "insert (g item) values" "result @ [g item]"] by auto
  qed
qed

lemma GetUniqueValues_getter:
  assumes "getPropertyGetter property = Some g"
  shows "sorted_wrt (<) (GetUniqueValues S property)
         \<and> set (GetUniqueValues S property) = g ` set (items S)"
proof -
  from GetUniqueValues_loop_getter [OF assms, of "{}" "[]" "items S"]
  have d: "distinct (GetUniqueValues_loop property (items S) {} [])"
    and s: "set (GetUniqueValues_loop property (items S) {} []) = g ` set (items S)"
    by simp_all
  from d have "sorted_wrt (<) (GetUniqueValues S property)"
    by (simp add: GetUniqueValues_def strict_sorted_iff)
  moreover from s have "set (GetUniqueValues S property) = g ` set (items S)"
    by (simp add: GetUniqueValues_def)
  ultimately show ?thesis by simp
qed

text \<open>The colours of the four records of the store's test, in increasing order.\<close>

lemma GetUniqueValues_example:
  "GetUniqueValues \<lparr>items =
        [\<lparr>ID = 1, Color = ''red'', Shape = ''circle'', Category = ''A''\<rparr>,
         \<lparr>ID = 2, Color = ''blue'', Shape = ''square'', Category = ''A''\<rparr>,
         \<lparr>ID = 3, Color = ''red'', Shape = ''square'', Category = ''B''\<rparr>,
         \<lparr>ID = 4, Color = ''green'', Shape = ''circle'', Category = ''B''\<rparr>]\<rparr> ''color''
   = [''blue'', ''green'', ''red'']"
  by code_simp

text \<open>
  Claim C8. For every store, \<^const>\<open>GetUniqueValues\<close> returns a list sorted in
  strictly increasing order, hence free of duplicates; for the keys \<^verbatim>\<open>color\<close>,
  \<^verbatim>\<open>shape\<close> and \<^verbatim>\<open>category\<close> its elements are exactly the values that attribute
  takes over the stored records; for any other key it returns the empty sequence.
\<close>

theorem GetUniqueValues_sorted_distinct:
  "sorted_wrt (<) (GetUniqueValues S property)
   \<and> distinct (GetUniqueValues S property)
   \<and> set (GetUniqueValues S ''color'') = Color ` set (items S)
   \<and> set (GetUniqueValues S ''shape'') = Shape ` set (items S)
   \<and> set (GetUniqueValues S ''category'') = Category ` set (items S)
   \<and> (property \<notin> {''color'', ''shape'', ''category''} \<longrightarrow> GetUniqueValues S property = [])"
proof -
  have dflt: "GetUniqueValues S property = []"
    if "property \<notin> {''color'', ''shape'', ''category''}"
    using that by (simp add: GetUniqueValues_def GetUniqueValues_loop_default)
  have srt: "sorted_wrt (<) (GetUniqueValues S property)"
  proof (cases "getPropertyGetter property")
    case None
    then have "property \<notin> {''color'', ''shape'', ''category''}"
      by (auto simp: getPropertyGetter_def split: if_splits)
    then show ?thesis by (simp add: dflt)
  next
    case (Some g)
    then show ?thesis by (simp add: GetUniqueValues_getter)
  qed
  then have "distinct (GetUniqueValues S property)"
    by (simp add: strict_sorted_iff)
  moreover have "set (GetUniqueValues S ''color'') = Color ` set (items S)"
    by (rule GetUniqueValues_getter [THEN conjunct2]) (simp add: getPropertyGetter_def)
  moreover have "set (GetUniqueValues S ''shape'') = Shape ` set (items S)"
    by (rule GetUniqueValues_getter [THEN conjunct2]) (simp add: getPropertyGetter_def)
  moreover have "set (GetUniqueValues S ''category'') = Category ` set (items S)"
    by (rule GetUniqueValues_getter [THEN conjunct2]) (simp add: getPropertyGetter_def)
  ultimately show ?thesis
    using srt dflt by simp
qed

theorem GetUniqueValues_sorted_distinct_witness:
  "''invalid'' \<notin> {''color'', ''shape'', ''category''}
   \<and> GetUniqueValues \<lparr>items =
        [\<lparr>ID = 1, Color = ''red'', Shape = ''circle'', Category = ''A''\<rparr>,
         \<lparr>ID = 2, Color = ''blue'', Shape = ''square'', Category = ''A''\<rparr>]\<rparr> ''invalid'' = []"
proof -
  have h: "''invalid'' \<notin> {''color'', ''shape'', ''category''}" by simp
  from GetUniqueValues_sorted_distinct [of _ "''invalid''", THEN conjunct2, THEN conjunct2,
      THEN conjunct2, THEN conjunct2, THEN conjunct2, THEN mp, OF h] h
  show ?thesis by simp
qed

section \<open>Grouping: properties\<close>

lemma groupMap_append_keys:
  "map fst (groupMap_append m k x) = (if k \<in> fst ` set m then map fst m else map fst m @ [k])"
  by (induction m k x rule: groupMap_append.induct) auto

lemma groupMap_append_distinct:
  "distinct (map fst m) \<Longrightarrow> distinct (map fst (groupMap_append m k x))"
  by (simp add: groupMap_append_keys)

lemma groupMap_append_map_of:
  "map_of (groupMap_append m k x) =
     (map_of m)(k \<mapsto> (case map_of m k of None \<Rightarrow> [] | Some xs \<Rightarrow> xs) @ [x])"
  by (induction m k x rule: groupMap_append.induct) (auto simp: fun_eq_iff)

lemma build_groupMap_snoc:
  "build_groupMap g (its @ [x]) = groupMap_append (build_groupMap g its) (g x) x"
  by (simp add: build_groupMap_def)

lemma build_groupMap_distinct: "distinct (map fst (build_groupMap g its))"
proof (induction its rule: rev_induct)
  case Nil
  show ?case by (simp add: build_groupMap_def)
next
  case (snoc x its)
  then show ?case by (simp add: build_groupMap_snoc groupMap_append_distinct)
qed

lemma filter_absent_key: "k \<notin> g ` set its \<Longrightarrow> filter (\<lambda>r. g r = k) its = []"
  by (auto simp: filter_empty_conv)

lemma build_groupMap_map_of:
  "map_of (build_groupMap g its) k =
     (if k \<in> g ` set its then Some (filter (\<lambda>r. g r = k) its) else None)"
proof (induction its arbitrary: k rule: rev_induct)
  case Nil
  show ?case by (simp add: build_groupMap_def)
next
  case (snoc x its)
  show ?case
  proof (cases "k = g x")
    case True
    show ?thesis
    proof (cases "g x \<in> g ` set its")
      case True
      with \<open>k = g x\<close> snoc [of "g x"] show ?thesis
        by (simp add: build_groupMap_snoc groupMap_append_map_of)
    next
      case False
      with \<open>k = g x\<close> snoc [of "g x"] filter_absent_key [OF False] show ?thesis
        by (simp add: build_groupMap_snoc groupMap_append_map_of)
    qed
  next
    case False
    with snoc [of k] show ?thesis
      by (auto simp: build_groupMap_snoc groupMap_append_map_of)
  qed
qed

lemma build_groupMap_keys: "set (map fst (build_groupMap g its)) = g ` set its"
proof -
  have "set (map fst (build_groupMap g its)) = dom (map_of (build_groupMap g its))"
    by (simp add: dom_map_of_conv_image_fst)
  also have "\<dots> = g ` set its"
    by (auto simp: dom_def build_groupMap_map_of)
  finally show ?thesis .
qed

lemma build_groupMap_entry:
  assumes "(k, xs) \<in> set (build_groupMap g its)"
  shows "k \<in> g ` set its \<and> xs = filter (\<lambda>r. g r = k) its"
proof -
  from assms build_groupMap_distinct [of g its]
  have "map_of (build_groupMap g its) k = Some xs"
    by simp
  then show ?thesis
    by (simp add: build_groupMap_map_of split: if_splits)
qed

lemma mset_keys_sort_key: "mset (map f (sort_key f xs)) = mset (map f xs)"
  by simp

lemma set_keys_sort_key: "set (map f (sort_key f xs)) = set (map f xs)"
  by simp

lemma sorted_groups_set:
  "set (sorted_groups groupBy entries) =
     (\<lambda>(val, its). \<lparr>GroupName = val, Property = groupBy, Items = its\<rparr>) ` set entries"
  by (simp add: sorted_groups_def)

lemma GroupName_entries:
  "map GroupName (map (\<lambda>(val, its). \<lparr>GroupName = val, Property = groupBy, Items = its\<rparr>) entries)
     = map fst entries"
  by (induction entries) auto

lemma sorted_groups_sorted: "sorted (map GroupName (sorted_groups groupBy entries))"
  by (simp add: sorted_groups_def sorted_sort_key)

lemma sorted_groups_distinct:
  assumes "distinct (map fst entries)"
  shows "distinct (map GroupName (sorted_groups groupBy entries))"
proof -
  let ?xs = "map (\<lambda>(val, its). \<lparr>GroupName = val, Property = groupBy, Items = its\<rparr>) entries"
  have "mset (map GroupName (sort_key GroupName ?xs)) = mset (map GroupName ?xs)"
    by (rule mset_keys_sort_key)
  also have "map GroupName ?xs = map fst entries"
    by (rule GroupName_entries)
  finally have "mset (map GroupName (sorted_groups groupBy entries)) = mset (map fst entries)"
    by (simp only: sorted_groups_def)
  from mset_eq_imp_distinct_iff [OF this] assms show ?thesis by simp
qed

lemma sorted_groups_length: "length (sorted_groups groupBy entries) = length entries"
  by (simp add: sorted_groups_def)

lemma groupItems_keys_sorted: "sorted (map GroupName (groupItems its groupBy))"
  by (simp add: groupItems_def sorted_groups_sorted split: option.splits)

lemma groupItems_keys_distinct: "distinct (map GroupName (groupItems its groupBy))"
  by (simp add: groupItems_def sorted_groups_distinct build_groupMap_distinct split: option.splits)

lemma sorted_arrangement_unique:
  assumes "mset ys = mset xs" and "sorted (map f ys)"
    and "sorted (map f xs)" and "distinct (map f xs)"
  shows "ys = xs"
proof -
  from assms(4) have inj: "inj_on f (set xs)"
    by (simp add: distinct_map)
  from assms(1) have "mset xs = mset ys" by simp
  from sort_key_inj_key_eq [OF this inj assms(2)] have "sort_key f xs = ys" .
  moreover from assms(3) have "sort_key f xs = xs"
    by (rule sort_key_id_if_sorted)
  ultimately show ?thesis by simp
qed

lemma groupItems_member:
  assumes "getPropertyGetter groupBy = Some g"
    and "grp \<in> set (groupItems its groupBy)"
  shows "GroupName grp \<in> g ` set its \<and> Property grp = groupBy
         \<and> Items grp = filter (\<lambda>r. g r = GroupName grp) its"
proof -
  from assms obtain k xs where e: "(k, xs) \<in> set (build_groupMap g its)"
    and grp: "grp = \<lparr>GroupName = k, Property = groupBy, Items = xs\<rparr>"
    by (auto simp: groupItems_def sorted_groups_set)
  from build_groupMap_entry [OF e] grp show ?thesis by simp
qed

lemma groupItems_length:
  assumes "getPropertyGetter groupBy = Some g"
  shows "length (groupItems its groupBy) = card (g ` set its)"
proof -
  from assms have "length (groupItems its groupBy) = length (map fst (build_groupMap g its))"
    by (simp add: groupItems_def sorted_groups_length)
  also have "\<dots> = card (set (map fst (build_groupMap g its)))"
    by (rule distinct_card [symmetric]) (rule build_groupMap_distinct)
  also have "\<dots> = card (g ` set its)"
    by (simp only: build_groupMap_keys)
  finally show ?thesis .
qed

lemma groupItems_names:
  assumes "getPropertyGetter groupBy = Some g"
  shows "set (map GroupName (groupItems its groupBy)) = g ` set its"
proof -
  let ?xs = "map (\<lambda>(val, its). \<lparr>GroupName = val, Property = groupBy, Items = its\<rparr>)
               (build_groupMap g its)"
  from assms have "groupItems its groupBy = sort_key GroupName ?xs"
    by (simp add: groupItems_def sorted_groups_def)
  then have "set (map GroupName (groupItems its groupBy)) = set (map GroupName ?xs)"
    by (simp only: set_keys_sort_key)
  also have "map GroupName ?xs = map fst (build_groupMap g its)"
    by (rule GroupName_entries)
  also have "set (map fst (build_groupMap g its)) = g ` set its"
    by (rule build_groupMap_keys)
  finally show ?thesis .
qed

lemma grouped_append_apply:
  "grouped_append m k' x k =
     (if k = k' then Some ((case m k' of None \<Rightarrow> [] | Some xs \<Rightarrow> xs) @ [x]) else m k)"
  by (simp add: grouped_append_def)

lemma grouped_foldl:
  "foldl (\<lambda>grouped item. grouped_append grouped (g item) item) Map.empty its =
     (\<lambda>k. if k \<in> g ` set its then Some (filter (\<lambda>r. g r = k) its) else None)"
proof (induction its rule: rev_induct)
  case Nil
  show ?case by simp
next
  case (snoc x its)
  let ?m = "\<lambda>k. if k \<in> g ` set its then Some (filter (\<lambda>r. g r = k) its) else None"
  have step: "foldl (\<lambda>grouped item. grouped_append grouped (g item) item) Map.empty (its @ [x])
      = grouped_append ?m (g x) x"
    by (simp only: foldl_append foldl.simps snoc)
  show ?case
    unfolding step
  proof (rule ext)
    fix k
    show "grouped_append ?m (g x) x k =
       (if k \<in> g ` set (its @ [x]) then Some (filter (\<lambda>r. g r = k) (its @ [x])) else None)"
    proof (cases "k = g x")
      case True
      show ?thesis
      proof (cases "g x \<in> g ` set its")
        case True
        with \<open>k = g x\<close> show ?thesis
          by (simp add: grouped_append_apply)
      next
        case False
        with \<open>k = g x\<close> filter_absent_key [OF False] show ?thesis
          by (simp add: grouped_append_apply)
      qed
    next
      case False
      then show ?thesis
        by (auto simp: grouped_append_apply)
    qed
  qed
qed

lemma groupItems_map_getter:
  assumes "getPropertyGetter groupBy = Some g"
  shows "groupItems_map its groupBy =
     (\<lambda>k. if k \<in> g ` set its then Some (filter (\<lambda>r. g r = k) its) else None)"
proof -
  from assms consider "groupBy = ''color''" "g = Color" | "groupBy = ''shape''" "g = Shape"
    | "groupBy = ''category''" "g = Category"
    by (auto simp: getPropertyGetter_Some_iff)
  then show ?thesis
  proof cases
    case 1
    show ?thesis
      unfolding 1 by (simp add: groupItems_map_def grouped_foldl)
  next
    case 2
    show ?thesis
      unfolding 2 by (simp add: groupItems_map_def grouped_foldl)
  next
    case 3
    show ?thesis
      unfolding 3 by (simp add: groupItems_map_def grouped_foldl)
  qed
qed

text \<open>Three records grouped by shape: \<^verbatim>\<open>circle\<close> comes before \<^verbatim>\<open>square\<close>.\<close>

lemma groupItems_example:
  "groupItems
     [\<lparr>ID = 1, Color = ''red'', Shape = ''square'', Category = ''A''\<rparr>,
      \<lparr>ID = 2, Color = ''blue'', Shape = ''circle'', Category = ''A''\<rparr>,
      \<lparr>ID = 3, Color = ''red'', Shape = ''square'', Category = ''B''\<rparr>] ''shape''
   = [\<lparr>GroupName = ''circle'', Property = ''shape'',
        Items = [\<lparr>ID = 2, Color = ''blue'', Shape = ''circle'', Category = ''A''\<rparr>]\<rparr>,
      \<lparr>GroupName = ''square'', Property = ''shape'',
        Items = [\<lparr>ID = 1, Color = ''red'', Shape = ''square'', Category = ''A''\<rparr>,
                 \<lparr>ID = 3, Color = ''red'', Shape = ''square'', Category = ''B''\<rparr>]\<rparr>]"
  by code_simp

text \<open>Visits of a map: any two are permutations of each other, and sort to one list.\<close>

lemma range_order_permute:
  assumes "range_order m es" and "mset es' = mset es"
  shows "range_order m es'"
proof -
  from assms(2) have "mset (map fst es') = mset (map fst es)"
    by simp
  from mset_eq_imp_distinct_iff [OF this] assms(1) have d: "distinct (map fst es')"
    by (simp add: range_order_def)
  from assms(1) have d0: "distinct (map fst es)" and m: "map_of es = m"
    by (simp_all add: range_order_def)
  from assms(2) have "set es' = set es"
    by (rule mset_eq_setD)
  with d d0 have "map_of es' = map_of es"
    by (simp only: map_of_inject_set)
  with d m show ?thesis
    by (simp add: range_order_def)
qed

lemma range_order_unique:
  assumes "range_order m es" and "range_order m es'"
  shows "mset es' = mset es"
proof -
  from assms have d: "distinct (map fst es)" and d': "distinct (map fst es')"
    and e: "map_of es' = map_of es"
    by (simp_all add: range_order_def)
  from d d' e have "set es' = set es"
    by (simp add: map_of_inject_set)
  moreover from d have "distinct es" by (rule distinct_map [THEN iffD1, THEN conjunct1])
  moreover from d' have "distinct es'" by (rule distinct_map [THEN iffD1, THEN conjunct1])
  ultimately show ?thesis
    by (simp add: set_eq_iff_mset_eq_distinct)
qed

lemma range_order_sort:
  assumes "range_order m es" and "range_order m es'"
  shows "sort_key fst es' = sort_key fst es"
proof (rule sort_key_inj_key_eq)
  from range_order_unique [OF assms] show "mset es' = mset (sort_key fst es)"
    by simp
  from assms(2) show "inj_on fst (set es')"
    by (simp add: range_order_def distinct_map)
  show "sorted (map fst (sort_key fst es))"
    by (rule sorted_sort_key)
qed

lemma range_order_sorted_strict:
  assumes "range_order m es"
  shows "sorted_wrt (<) (map fst (sort_key fst es))"
proof -
  have "mset (map fst (sort_key fst es)) = mset (map fst es)"
    by (rule mset_keys_sort_key)
  from mset_eq_imp_distinct_iff [OF this] assms
  have "distinct (map fst (sort_key fst es))"
    by (simp add: range_order_def)
  then show ?thesis
    by (simp add: strict_sorted_iff sorted_sort_key)
qed

lemma map_of_tabulate:
  "map_of (map (\<lambda>k. (k, f k)) ks) = (\<lambda>k. if k \<in> set ks then Some (f k) else None)"
  by (induction ks) (auto simp: fun_eq_iff)

lemma groupItems_map_range_order: "\<exists>es. range_order (groupItems_map its groupBy) es"
proof (cases "getPropertyGetter groupBy")
  case None
  then have "groupItems_map its groupBy = map_of [(''All'', its)]"
    by (auto simp: groupItems_map_def getPropertyGetter_def split: if_splits)
  then have "range_order (groupItems_map its groupBy) [(''All'', its)]"
    by (simp add: range_order_def)
  then show ?thesis ..
next
  case (Some g)
  let ?es = "map (\<lambda>k. (k, filter (\<lambda>r. g r = k) its)) (remdups (map g its))"
  have "map fst ?es = remdups (map g its)"
    by (simp add: comp_def)
  then have "distinct (map fst ?es)"
    by simp
  moreover have "map_of ?es = groupItems_map its groupBy"
    by (simp only: map_of_tabulate groupItems_map_getter [OF Some]) simp
  ultimately have "range_order (groupItems_map its groupBy) ?es"
    by (simp only: range_order_def simp_thms)
  then show ?thesis ..
qed

text \<open>The same three records grouped by shape into a map.\<close>

lemma groupItems_map_example:
  "groupItems_map
     [\<lparr>ID = 1, Color = ''red'', Shape = ''square'', Category = ''A''\<rparr>,
      \<lparr>ID = 2, Color = ''blue'', Shape = ''circle'', Category = ''A''\<rparr>,
      \<lparr>ID = 3, Color = ''red'', Shape = ''square'', Category = ''B''\<rparr>] ''shape''
   = map_of
      [(''square'', [\<lparr>ID = 1, Color = ''red'', Shape = ''square'', Category = ''A''\<rparr>,
                     \<lparr>ID = 3, Color = ''red'', Shape = ''square'', Category = ''B''\<rparr>]),
       (''circle'', [\<lparr>ID = 2, Color = ''blue'', Shape = ''circle'', Category = ''A''\<rparr>])]"
  by (rule ext) (simp add: groupItems_map_def grouped_append_apply)

text \<open>
  Claim C3, as the code has it. For every record list and every group-by string the
  result of the \<^const>\<open>groupItems\<close> that returns a slice is sorted by group name in
  strictly increasing bytewise order, so no two groups share a name, and it is
  determined by the input: any arrangement of the same groups that is sorted by group
  name is this one, whatever the order in which \<^verbatim>\<open>range\<close> visits the map and
  whatever \<^verbatim>\<open>sort.Slice\<close> does with groups of equal name. The \<^const>\<open>groupItems_map\<close>
  that returns a map does not sort: its result has one group for each key and no
  order. It can be visited; every visit has pairwise distinct keys; every permutation
  of a visit is a visit too, so the code fixes no order of the groups; any two visits
  hold the same groups, and sorted by key they give the same strictly increasing list.
\<close>

theorem groupItems_sorted:
  "sorted_wrt (<) (map GroupName (groupItems its groupBy))
   \<and> (\<forall>ys. mset ys = mset (groupItems its groupBy) \<and> sorted (map GroupName ys)
          \<longrightarrow> ys = groupItems its groupBy)
   \<and> (\<exists>es. range_order (groupItems_map its groupBy) es)
   \<and> (\<forall>es es'. range_order (groupItems_map its groupBy) es \<longrightarrow>
          distinct (map fst es)
          \<and> (mset es' = mset es \<longrightarrow> range_order (groupItems_map its groupBy) es')
          \<and> (range_order (groupItems_map its groupBy) es' \<longrightarrow>
                mset es' = mset es \<and> sort_key fst es' = sort_key fst es)
          \<and> sorted_wrt (<) (map fst (sort_key fst es)))"
proof (intro conjI allI impI)
  show "sorted_wrt (<) (map GroupName (groupItems its groupBy))"
    by (simp add: strict_sorted_iff groupItems_keys_sorted groupItems_keys_distinct)
next
  fix ys
  assume "mset ys = mset (groupItems its groupBy) \<and> sorted (map GroupName ys)"
  then show "ys = groupItems its groupBy"
    by (intro sorted_arrangement_unique [where f = GroupName])
      (simp_all add: groupItems_keys_sorted groupItems_keys_distinct)
next
  show "\<exists>es. range_order (groupItems_map its groupBy) es"
    by (rule groupItems_map_range_order)
next
  fix es es'
  assume r: "range_order (groupItems_map its groupBy) es"
  then show "distinct (map fst es)"
    by (simp add: range_order_def)
  from r show "sorted_wrt (<) (map fst (sort_key fst es))"
    by (rule range_order_sorted_strict)
  {
    assume "mset es' = mset es"
    with r show "range_order (groupItems_map its groupBy) es'"
      by (rule range_order_permute)
  }
  {
    assume r': "range_order (groupItems_map its groupBy) es'"
    from r r' show "mset es' = mset es"
      by (rule range_order_unique)
    from r r' show "sort_key fst es' = sort_key fst es"
      by (rule range_order_sort)
  }
qed

theorem groupItems_sorted_witness:
  "mset [\<lparr>GroupName = ''circle'', Property = ''shape'',
            Items = [\<lparr>ID = 2, Color = ''blue'', Shape = ''circle'', Category = ''A''\<rparr>]\<rparr>,
          \<lparr>GroupName = ''square'', Property = ''shape'',
            Items = [\<lparr>ID = 1, Color = ''red'', Shape = ''square'', Category = ''A''\<rparr>,
                     \<lparr>ID = 3, Color = ''red'', Shape = ''square'', Category = ''B''\<rparr>]\<rparr>]
     = mset (groupItems
         [\<lparr>ID = 1, Color = ''red'', Shape = ''square'', Category = ''A''\<rparr>,
          \<lparr>ID = 2, Color = ''blue'', Shape = ''circle'', Category = ''A''\<rparr>,
          \<lparr>ID = 3, Color = ''red'', Shape = ''square'', Category = ''B''\<rparr>] ''shape'')
   \<and> sorted (map GroupName
        [\<lparr>GroupName = ''circle'', Property = ''shape'',
            Items = [\<lparr>ID = 2, Color = ''blue'', Shape = ''circle'', Category = ''A''\<rparr>]\<rparr>,
          \<lparr>GroupName = ''square'', Property = ''shape'',
            Items = [\<lparr>ID = 1, Color = ''red'', Shape = ''square'', Category = ''A''\<rparr>,
                     \<lparr>ID = 3, Color = ''red'', Shape = ''square'', Category = ''B''\<rparr>]\<rparr>])
   \<and> sorted_wrt (<) (map GroupName (groupItems
         [\<lparr>ID = 1, Color = ''red'', Shape = ''square'', Category = ''A''\<rparr>,
          \<lparr>ID = 2, Color = ''blue'', Shape = ''circle'', Category = ''A''\<rparr>,
          \<lparr>ID = 3, Color = ''red'', Shape = ''square'', Category = ''B''\<rparr>] ''shape''))
   \<and> range_order
        (groupItems_map
          [\<lparr>ID = 1, Color = ''red'', Shape = ''square'', Category = ''A''\<rparr>,
           \<lparr>ID = 2, Color = ''blue'', Shape = ''circle'', Category = ''A''\<rparr>,
           \<lparr>ID = 3, Color = ''red'', Shape = ''square'', Category = ''B''\<rparr>] ''shape'')
        [(''square'', [\<lparr>ID = 1, Color = ''red'', Shape = ''square'', Category = ''A''\<rparr>,
                       \<lparr>ID = 3, Color = ''red'', Shape = ''square'', Category = ''B''\<rparr>]),
         (''circle'', [\<lparr>ID = 2, Color = ''blue'', Shape = ''circle'', Category = ''A''\<rparr>])]
   \<and> range_order
        (groupItems_map
          [\<lparr>ID = 1, Color = ''red'', Shape = ''square'', Category = ''A''\<rparr>,
           \<lparr>ID = 2, Color = ''blue'', Shape = ''circle'', Category = ''A''\<rparr>,
           \<lparr>ID = 3, Color = ''red'', Shape = ''square'', Category = ''B''\<rparr>] ''shape'')
        [(''circle'', [\<lparr>ID = 2, Color = ''blue'', Shape = ''circle'', Category = ''A''\<rparr>]),
         (''square'', [\<lparr>ID = 1, Color = ''red'', Shape = ''square'', Category = ''A''\<rparr>,
                       \<lparr>ID = 3, Color = ''red'', Shape = ''square'', Category = ''B''\<rparr>])]
   \<and> sort_key fst
        [(''circle'', [\<lparr>ID = 2, Color = ''blue'', Shape = ''circle'', Category = ''A''\<rparr>]),
         (''square'', [\<lparr>ID = 1, Color = ''red'', Shape = ''square'', Category = ''A''\<rparr>,
                       \<lparr>ID = 3, Color = ''red'', Shape = ''square'', Category = ''B''\<rparr>])]
      = sort_key fst
        [(''square'', [\<lparr>ID = 1, Color = ''red'', Shape = ''square'', Category = ''A''\<rparr>,
                       \<lparr>ID = 3, Color = ''red'', Shape = ''square'', Category = ''B''\<rparr>]),
         (''circle'', [\<lparr>ID = 2, Color = ''blue'', Shape = ''circle'', Category = ''A''\<rparr>])]"
proof -
  let ?its = "[\<lparr>ID = 1, Color = ''red'', Shape = ''square'', Category = ''A''\<rparr>,
          \<lparr>ID = 2, Color = ''blue'', Shape = ''circle'', Category = ''A''\<rparr>,
          \<lparr>ID = 3, Color = ''red'', Shape = ''square'', Category = ''B''\<rparr>]"
  let ?ys = "[\<lparr>GroupName = ''circle'', Property = ''shape'',
            Items = [\<lparr>ID = 2, Color = ''blue'', Shape = ''circle'', Category = ''A''\<rparr>]\<rparr>,
          \<lparr>GroupName = ''square'', Property = ''shape'',
            Items = [\<lparr>ID = 1, Color = ''red'', Shape = ''square'', Category = ''A''\<rparr>,
                     \<lparr>ID = 3, Color = ''red'', Shape = ''square'', Category = ''B''\<rparr>]\<rparr>]"
  let ?sq = "(''square'', [\<lparr>ID = 1, Color = ''red'', Shape = ''square'', Category = ''A''\<rparr>,
                       \<lparr>ID = 3, Color = ''red'', Shape = ''square'', Category = ''B''\<rparr>])"
  let ?ci = "(''circle'', [\<lparr>ID = 2, Color = ''blue'', Shape = ''circle'', Category = ''A''\<rparr>])"
  have h1: "mset ?ys = mset (groupItems ?its ''shape'')"
    by (simp only: groupItems_example)
  have h2: "sorted (map GroupName ?ys)"
    by simp
  from h1 h2 have h: "mset ?ys = mset (groupItems ?its ''shape'') \<and> sorted (map GroupName ?ys)"
    by (rule conjI)
  note t = groupItems_sorted [of ?its "''shape''"]
  from t [THEN conjunct2, THEN conjunct1, THEN spec, of ?ys, THEN mp, OF h]
  have "?ys = groupItems ?its ''shape''" .
  have r: "range_order (groupItems_map ?its ''shape'') [?sq, ?ci]"
    by (simp add: range_order_def groupItems_map_example)
  have p: "mset [?ci, ?sq] = mset [?sq, ?ci]"
    by simp
  note u = t [THEN conjunct2, THEN conjunct2, THEN conjunct2, THEN spec, of "[?sq, ?ci]",
      THEN spec, of "[?ci, ?sq]", THEN mp, OF r]
  from u [THEN conjunct2, THEN conjunct1, THEN mp, OF p]
  have r': "range_order (groupItems_map ?its ''shape'') [?ci, ?sq]" .
  from u [THEN conjunct2, THEN conjunct2, THEN conjunct1, THEN mp, OF r', THEN conjunct2]
  have s: "sort_key fst [?ci, ?sq] = sort_key fst [?sq, ?ci]" .
  from h1 h2 t [THEN conjunct1] r r' s show ?thesis
    by (intro conjI)
qed

text \<open>
  Three records grouped by shape into a map: visiting \<^verbatim>\<open>square\<close> before
  \<^verbatim>\<open>circle\<close> is a visit of the result, and it is not sorted by key.
\<close>

theorem groupItems_map_unordered_counterexample:
  "range_order
     (groupItems_map
       [\<lparr>ID = 1, Color = ''red'', Shape = ''square'', Category = ''A''\<rparr>,
        \<lparr>ID = 2, Color = ''blue'', Shape = ''circle'', Category = ''A''\<rparr>,
        \<lparr>ID = 3, Color = ''red'', Shape = ''square'', Category = ''B''\<rparr>] ''shape'')
     [(''square'', [\<lparr>ID = 1, Color = ''red'', Shape = ''square'', Category = ''A''\<rparr>,
                    \<lparr>ID = 3, Color = ''red'', Shape = ''square'', Category = ''B''\<rparr>]),
      (''circle'', [\<lparr>ID = 2, Color = ''blue'', Shape = ''circle'', Category = ''A''\<rparr>])]
   \<and> \<not> sorted (map fst
     [(''square'', [\<lparr>ID = 1, Color = ''red'', Shape = ''square'', Category = ''A''\<rparr>,
                    \<lparr>ID = 3, Color = ''red'', Shape = ''square'', Category = ''B''\<rparr>]),
      (''circle'', [\<lparr>ID = 2, Color = ''blue'', Shape = ''circle'', Category = ''A''\<rparr>])])"
  by (simp add: range_order_def groupItems_map_example)

text \<open>
  Claim C4, as the code has it. For a group-by string that is not \<^verbatim>\<open>color\<close>,
  \<^verbatim>\<open>shape\<close> or \<^verbatim>\<open>category\<close>, grouping returns exactly one group, whose members are
  the whole list in its order. Its key is a fixed sentinel: \<^verbatim>\<open>All Items\<close> in the
  \<^const>\<open>groupItems\<close> that returns a slice of groups, \<^verbatim>\<open>All\<close> in the one that returns
  a map.
\<close>

theorem groupItems_unrecognized:
  "groupBy \<notin> {''color'', ''shape'', ''category''} \<Longrightarrow>
   groupItems its groupBy = [\<lparr>GroupName = ''All Items'', Property = groupBy, Items = its\<rparr>]
   \<and> groupItems_map its groupBy = [''All'' \<mapsto> its]"
  by (simp add: groupItems_def groupItems_map_def getPropertyGetter_def)

theorem groupItems_unrecognized_witness:
  "''bogus'' \<notin> {''color'', ''shape'', ''category''}
   \<and> groupItems
        [\<lparr>ID = 1, Color = ''red'', Shape = ''circle'', Category = ''A''\<rparr>,
         \<lparr>ID = 2, Color = ''blue'', Shape = ''square'', Category = ''A''\<rparr>] ''bogus''
      = [\<lparr>GroupName = ''All Items'', Property = ''bogus'',
           Items = [\<lparr>ID = 1, Color = ''red'', Shape = ''circle'', Category = ''A''\<rparr>,
                    \<lparr>ID = 2, Color = ''blue'', Shape = ''square'', Category = ''A''\<rparr>]\<rparr>]
   \<and> groupItems_map
        [\<lparr>ID = 1, Color = ''red'', Shape = ''circle'', Category = ''A''\<rparr>,
         \<lparr>ID = 2, Color = ''blue'', Shape = ''square'', Category = ''A''\<rparr>] ''bogus''
      = [''All'' \<mapsto> [\<lparr>ID = 1, Color = ''red'', Shape = ''circle'', Category = ''A''\<rparr>,
                       \<lparr>ID = 2, Color = ''blue'', Shape = ''square'', Category = ''A''\<rparr>]]"
proof -
  have h: "''bogus'' \<notin> {''color'', ''shape'', ''category''}" by simp
  from h groupItems_unrecognized [OF h] show ?thesis
    by (intro conjI) simp_all
qed

text \<open>
  The map-returning version has no group under \<^verbatim>\<open>All Items\<close> for the group-by
  string \<^verbatim>\<open>bogus\<close>; its one group is under \<^verbatim>\<open>All\<close>.
\<close>

theorem groupItems_map_sentinel_counterexample:
  "''bogus'' \<notin> {''color'', ''shape'', ''category''}
   \<and> groupItems_map [\<lparr>ID = 1, Color = ''red'', Shape = ''circle'', Category = ''A''\<rparr>] ''bogus''
       ''All Items'' = None
   \<and> groupItems_map [\<lparr>ID = 1, Color = ''red'', Shape = ''circle'', Category = ''A''\<rparr>] ''bogus''
       ''All'' = Some [\<lparr>ID = 1, Color = ''red'', Shape = ''circle'', Category = ''A''\<rparr>]"
  by (simp add: groupItems_map_def)

text \<open>
  Claim C10, as the code has it. For a recognized group-by key with accessor \<open>g\<close>,
  every group of the result is non-empty, every member of a group has the group's key
  as its value of \<open>g\<close> (the group holds exactly the records with that value, in list
  order), and the number of groups is the number of distinct values of \<open>g\<close> over the
  list; this holds for the slice of \<^const>\<open>groupItems\<close> and for the map of
  \<^const>\<open>groupItems_map\<close>. Group names are attribute values: a group named
  \<^verbatim>\<open>All Items\<close> appears exactly when some record has \<^verbatim>\<open>All Items\<close> as its value of
  the attribute.
\<close>

theorem groupItems_recognized:
  assumes "getPropertyGetter groupBy = Some g"
  shows "(\<forall>grp\<in>set (groupItems its groupBy).
            Items grp \<noteq> [] \<and> (\<forall>r\<in>set (Items grp). g r = GroupName grp)
            \<and> Items grp = filter (\<lambda>r. g r = GroupName grp) its)
         \<and> length (groupItems its groupBy) = card (g ` set its)
         \<and> ((\<exists>grp\<in>set (groupItems its groupBy). GroupName grp = ''All Items'')
              \<longleftrightarrow> ''All Items'' \<in> g ` set its)
         \<and> (\<forall>k xs. groupItems_map its groupBy k = Some xs \<longrightarrow>
              xs \<noteq> [] \<and> (\<forall>r\<in>set xs. g r = k) \<and> xs = filter (\<lambda>r. g r = k) its)
         \<and> card (dom (groupItems_map its groupBy)) = card (g ` set its)"
proof (intro conjI ballI allI impI)
  fix grp
  assume m: "grp \<in> set (groupItems its groupBy)"
  from groupItems_member [OF assms m]
  have k: "GroupName grp \<in> g ` set its"
    and xs: "Items grp = filter (\<lambda>r. g r = GroupName grp) its"
    by simp_all
  from xs show "Items grp = filter (\<lambda>r. g r = GroupName grp) its" .
  from k xs show "Items grp \<noteq> []"
    by (auto simp: filter_empty_conv)
  fix r
  assume "r \<in> set (Items grp)"
  with xs show "g r = GroupName grp" by simp
next
  show "length (groupItems its groupBy) = card (g ` set its)"
    by (rule groupItems_length [OF assms])
next
  have "(\<exists>grp\<in>set (groupItems its groupBy). GroupName grp = ''All Items'')
      \<longleftrightarrow> ''All Items'' \<in> set (map GroupName (groupItems its groupBy))"
    by (force simp: image_iff)
  also have "\<dots> \<longleftrightarrow> ''All Items'' \<in> g ` set its"
    by (simp only: groupItems_names [OF assms])
  finally show "(\<exists>grp\<in>set (groupItems its groupBy). GroupName grp = ''All Items'')
      \<longleftrightarrow> ''All Items'' \<in> g ` set its" .
next
  fix k xs
  assume "groupItems_map its groupBy k = Some xs"
  then have k: "k \<in> g ` set its" and xs: "xs = filter (\<lambda>r. g r = k) its"
    by (simp_all add: groupItems_map_getter [OF assms] split: if_splits)
  from xs show "xs = filter (\<lambda>r. g r = k) its" .
  from k xs show "xs \<noteq> []"
    by (auto simp: filter_empty_conv)
  fix r
  assume "r \<in> set xs"
  with xs show "g r = k" by simp
next
  have "dom (groupItems_map its groupBy) = g ` set its"
    by (auto simp: groupItems_map_getter [OF assms] dom_def)
  then show "card (dom (groupItems_map its groupBy)) = card (g ` set its)"
    by simp
qed

theorem groupItems_recognized_witness:
  "getPropertyGetter ''shape'' = Some Shape
   \<and> length (groupItems
        [\<lparr>ID = 1, Color = ''red'', Shape = ''square'', Category = ''A''\<rparr>,
         \<lparr>ID = 2, Color = ''blue'', Shape = ''circle'', Category = ''A''\<rparr>,
         \<lparr>ID = 3, Color = ''red'', Shape = ''square'', Category = ''B''\<rparr>] ''shape'') = 2
   \<and> Items \<lparr>GroupName = ''square'', Property = ''shape'',
        Items = [\<lparr>ID = 1, Color = ''red'', Shape = ''square'', Category = ''A''\<rparr>,
                 \<lparr>ID = 3, Color = ''red'', Shape = ''square'', Category = ''B''\<rparr>]\<rparr>
      = filter (\<lambda>r. Shape r = ''square'')
        [\<lparr>ID = 1, Color = ''red'', Shape = ''square'', Category = ''A''\<rparr>,
         \<lparr>ID = 2, Color = ''blue'', Shape = ''circle'', Category = ''A''\<rparr>,
         \<lparr>ID = 3, Color = ''red'', Shape = ''square'', Category = ''B''\<rparr>]
   \<and> groupItems_map
        [\<lparr>ID = 1, Color = ''red'', Shape = ''square'', Category = ''A''\<rparr>,
         \<lparr>ID = 2, Color = ''blue'', Shape = ''circle'', Category = ''A''\<rparr>,
         \<lparr>ID = 3, Color = ''red'', Shape = ''square'', Category = ''B''\<rparr>] ''shape'' ''circle''
      = Some [\<lparr>ID = 2, Color = ''blue'', Shape = ''circle'', Category = ''A''\<rparr>]"
proof -
  let ?its = "[\<lparr>ID = 1, Color = ''red'', Shape = ''square'', Category = ''A''\<rparr>,
         \<lparr>ID = 2, Color = ''blue'', Shape = ''circle'', Category = ''A''\<rparr>,
         \<lparr>ID = 3, Color = ''red'', Shape = ''square'', Category = ''B''\<rparr>]"
  let ?sq = "\<lparr>GroupName = ''square'', Property = ''shape'',
        Items = [\<lparr>ID = 1, Color = ''red'', Shape = ''square'', Category = ''A''\<rparr>,
                 \<lparr>ID = 3, Color = ''red'', Shape = ''square'', Category = ''B''\<rparr>]\<rparr>"
  have h: "getPropertyGetter ''shape'' = Some Shape"
    by (simp add: getPropertyGetter_def)
  note t = groupItems_recognized [OF h, of ?its]
  from t have "length (groupItems ?its ''shape'') = card (Shape ` set ?its)"
    by (elim conjE)
  moreover have "Shape ` set ?its = {''square'', ''circle''}"
    by auto
  ultimately have 1: "length (groupItems ?its ''shape'') = 2"
    by simp
  have m: "?sq \<in> set (groupItems ?its ''shape'')"
    by (simp only: groupItems_example) simp
  from t [THEN conjunct1, THEN bspec, OF m]
  have "Items ?sq = filter (\<lambda>r. Shape r = GroupName ?sq) ?its"
    by (elim conjE)
  then have 2: "Items ?sq = filter (\<lambda>r. Shape r = ''square'') ?its"
    by simp
  have c: "groupItems_map ?its ''shape'' ''circle''
      = Some [\<lparr>ID = 2, Color = ''blue'', Shape = ''circle'', Category = ''A''\<rparr>]"
    by (simp add: groupItems_map_def grouped_append_apply)
  from h 1 2 c show ?thesis
    by (intro conjI)
qed

text \<open>
  A record whose colour is the string \<^verbatim>\<open>All Items\<close>, grouped by \<^verbatim>\<open>color\<close>, gives a
  group named \<^verbatim>\<open>All Items\<close>.
\<close>

theorem groupItems_sentinel_name_counterexample:
  "getPropertyGetter ''color'' = Some Color
   \<and> groupItems [\<lparr>ID = 1, Color = ''All Items'', Shape = ''circle'', Category = ''A''\<rparr>] ''color''
   = [\<lparr>GroupName = ''All Items'', Property = ''color'',
        Items = [\<lparr>ID = 1, Color = ''All Items'', Shape = ''circle'', Category = ''A''\<rparr>]\<rparr>]"
  by (simp add: getPropertyGetter_def groupItems_def sorted_groups_def build_groupMap_def)

section \<open>The copy returned for an empty filter set\<close>

lemma store_items_length: "length (store_items h dst i vs) = length h"
  by (induction vs arbitrary: h i) simp_all

lemma store_items_other:
  "a \<noteq> array dst \<Longrightarrow> store_items h dst i vs ! a = h ! a"
  by (induction vs arbitrary: h i) simp_all

lemma store_items_array:
  "array dst < length h \<Longrightarrow> offset dst + i + length vs \<le> length (h ! array dst) \<Longrightarrow>
   store_items h dst i vs ! array dst =
     take (offset dst + i) (h ! array dst) @ vs @ drop (offset dst + i + length vs) (h ! array dst)"
proof (induction vs arbitrary: h i)
  case Nil
  then show ?case by simp
next
  case (Cons v vs)
  let ?A = "h ! array dst"
  let ?h' = "h[array dst := ?A[offset dst + i := v]]"
  from Cons.prems have a: "array dst < length ?h'"
    and b: "offset dst + Suc i + length vs \<le> length (?h' ! array dst)"
    by simp_all
  have "store_items h dst i (v # vs) ! array dst = store_items ?h' dst (Suc i) vs ! array dst"
    by simp
  also from Cons.IH [OF a b] have "\<dots> =
      take (offset dst + Suc i) (?h' ! array dst) @ vs @
      drop (offset dst + Suc i + length vs) (?h' ! array dst)" .
  also from Cons.prems have "?h' ! array dst = ?A[offset dst + i := v]"
    by simp
  also from Cons.prems have "take (offset dst + Suc i) (?A[offset dst + i := v])
      = take (offset dst + i) ?A @ [v]"
    by (simp add: take_Suc_conv_app_nth)
  also have "drop (offset dst + Suc i + length vs) (?A[offset dst + i := v])
      = drop (offset dst + i + length (v # vs)) ?A"
    by simp
  finally show ?case by simp
qed

lemma slice_read_length: "valid_slice h s \<Longrightarrow> length (slice_read h s) = len s"
  by (auto simp: valid_slice_def slice_read_def)

lemma slice_read_append: "array s < length h \<Longrightarrow> slice_read (h @ hs) s = slice_read h s"
  by (simp add: slice_read_def nth_append)

lemma copy_into_made:
  assumes "valid_slice h s"
  shows "copy_slice (h @ [replicate (len s) zero_Item])
           \<lparr>array = length h, offset = 0, len = len s, cap = len s\<rparr> s
         = h @ [slice_read h s]"
proof -
  let ?r = "\<lparr>array = length h, offset = 0, len = len s, cap = len s\<rparr>"
  let ?h1 = "h @ [replicate (len s) zero_Item]"
  let ?vs = "slice_read h s"
  from assms have a: "array s < length h"
    by (simp add: valid_slice_def)
  have n: "length ?vs = len s"
    by (rule slice_read_length [OF assms])
  have c: "copy_slice ?h1 ?r s = store_items ?h1 ?r 0 ?vs"
    by (simp add: copy_slice_def slice_read_append [OF a] n)
  show ?thesis
    unfolding c
  proof (rule nth_equalityI)
    show "length (store_items ?h1 ?r 0 ?vs) = length (h @ [?vs])"
      by (simp add: store_items_length)
  next
    fix a
    assume "a < length (store_items ?h1 ?r 0 ?vs)"
    then have "a < length h \<or> a = length h"
      by (auto simp: store_items_length)
    then show "store_items ?h1 ?r 0 ?vs ! a = (h @ [?vs]) ! a"
    proof
      assume l: "a < length h"
      then have "store_items ?h1 ?r 0 ?vs ! a = ?h1 ! a"
        by (intro store_items_other) simp
      with l show ?thesis
        by (simp add: nth_append)
    next
      assume e: "a = length h"
      have "store_items ?h1 ?r 0 ?vs ! array ?r =
          take (offset ?r + 0) (?h1 ! array ?r) @ ?vs
            @ drop (offset ?r + 0 + length ?vs) (?h1 ! array ?r)"
        by (rule store_items_array) (simp_all add: n)
      then have "store_items ?h1 ?r 0 ?vs ! length h = ?vs"
        by (simp add: n)
      with e show ?thesis by simp
    qed
  qed
qed

lemma Filter_heap_refines:
  assumes "valid_slice h s"
  shows "Filter_heap h s F =
     (h @ [Filter \<lparr>items = slice_read h s\<rparr> F],
      \<lparr>array = length h, offset = 0,
       len = length (Filter \<lparr>items = slice_read h s\<rparr> F),
       cap = length (Filter \<lparr>items = slice_read h s\<rparr> F)\<rparr>)"
proof (cases F)
  case Nil
  with copy_into_made [OF assms] slice_read_length [OF assms] show ?thesis
    by (simp add: Filter_heap_def Filter_def make_slice_def)
next
  case (Cons e F')
  then show ?thesis
    by (simp add: Filter_heap_def Filter_def Let_def)
qed

text \<open>
  Claim C9. With an empty filter set \<^verbatim>\<open>Filter\<close> is the identity on the contents of
  the store: the slice it returns shows the same items as the store's slice, in the
  same order and of the same length, which for a store built by \<^const>\<open>New\<close> is the
  seed list. The result is a fresh copy: its backing array is not the store's, the
  call leaves the store's contents as they were, and an assignment through the
  result changes the result only, never what the store's slice shows.
\<close>

theorem Filter_empty_copy:
  assumes "valid_slice h s" and "Filter_heap h s [] = (h', r)"
  shows "slice_read h' r = slice_read h s
         \<and> length (slice_read h' r) = length (slice_read h s)
         \<and> Filter \<lparr>items = slice_read h s\<rparr> [] = slice_read h s
         \<and> (\<forall>seed S. New seed = Inr S \<longrightarrow> Filter S [] = seed)
         \<and> array r \<noteq> array s
         \<and> valid_slice h' r
         \<and> slice_read h' s = slice_read h s
         \<and> (\<forall>i v h''. slice_set h' r i v = Some h'' \<longrightarrow>
               slice_read h'' s = slice_read h s \<and> slice_read h'' r = (slice_read h s)[i := v])"
proof -
  let ?vs = "slice_read h s"
  from assms(1) have a: "array s < length h"
    by (simp add: valid_slice_def)
  have n: "length ?vs = len s"
    by (rule slice_read_length [OF assms(1)])
  from assms(2) Filter_heap_refines [OF assms(1), of "[]"]
  have h': "h' = h @ [?vs]"
    and r: "r = \<lparr>array = length h, offset = 0, len = len s, cap = len s\<rparr>"
    by (simp_all add: Filter_def n)
  have 1: "slice_read h' r = ?vs"
    by (simp add: h' r slice_read_def n)
  have 2: "Filter \<lparr>items = ?vs\<rparr> [] = ?vs"
    by (simp add: Filter_def)
  have 3: "\<forall>seed S. New seed = Inr S \<longrightarrow> Filter S [] = seed"
    by (auto simp: New_def Filter_def split: option.splits)
  from a have 4: "array r \<noteq> array s"
    by (simp add: r)
  have 5: "valid_slice h' r"
    by (simp add: valid_slice_def h' r n)
  have 6: "slice_read h' s = ?vs"
    by (simp add: h' slice_read_append [OF a])
  have 7: "slice_read h'' s = ?vs \<and> slice_read h'' r = ?vs[i := v]"
    if "slice_set h' r i v = Some h''" for i v h''
  proof -
    from that have i: "i < len s" and h'': "h'' = (h @ [?vs])[length h := ?vs[i := v]]"
      by (simp_all add: slice_set_def h' r split: if_splits)
    from a have "h'' ! array s = h ! array s"
      by (simp add: h'' nth_append)
    then have "slice_read h'' s = ?vs"
      by (simp add: slice_read_def)
    moreover have "slice_read h'' r = ?vs[i := v]"
      by (simp add: slice_read_def h'' r n)
    ultimately show ?thesis by simp
  qed
  from 1 2 3 4 5 6 7 show ?thesis by simp
qed

theorem Filter_empty_copy_witness:
  "valid_slice
     [[\<lparr>ID = 1, Color = ''red'', Shape = ''circle'', Category = ''A''\<rparr>,
       \<lparr>ID = 2, Color = ''blue'', Shape = ''square'', Category = ''A''\<rparr>]]
     \<lparr>array = 0, offset = 0, len = 2, cap = 2\<rparr>
   \<and> Filter_heap
       [[\<lparr>ID = 1, Color = ''red'', Shape = ''circle'', Category = ''A''\<rparr>,
         \<lparr>ID = 2, Color = ''blue'', Shape = ''square'', Category = ''A''\<rparr>]]
       \<lparr>array = 0, offset = 0, len = 2, cap = 2\<rparr> []
     = ([[\<lparr>ID = 1, Color = ''red'', Shape = ''circle'', Category = ''A''\<rparr>,
          \<lparr>ID = 2, Color = ''blue'', Shape = ''square'', Category = ''A''\<rparr>],
         [\<lparr>ID = 1, Color = ''red'', Shape = ''circle'', Category = ''A''\<rparr>,
          \<lparr>ID = 2, Color = ''blue'', Shape = ''square'', Category = ''A''\<rparr>]],
        \<lparr>array = 1, offset = 0, len = 2, cap = 2\<rparr>)
   \<and> slice_set
       [[\<lparr>ID = 1, Color = ''red'', Shape = ''circle'', Category = ''A''\<rparr>,
         \<lparr>ID = 2, Color = ''blue'', Shape = ''square'', Category = ''A''\<rparr>],
        [\<lparr>ID = 1, Color = ''red'', Shape = ''circle'', Category = ''A''\<rparr>,
         \<lparr>ID = 2, Color = ''blue'', Shape = ''square'', Category = ''A''\<rparr>]]
       \<lparr>array = 1, offset = 0, len = 2, cap = 2\<rparr> 0
       \<lparr>ID = 9, Color = ''green'', Shape = ''circle'', Category = ''B''\<rparr>
     = Some
        [[\<lparr>ID = 1, Color = ''red'', Shape = ''circle'', Category = ''A''\<rparr>,
          \<lparr>ID = 2, Color = ''blue'', Shape = ''square'', Category = ''A''\<rparr>],
         [\<lparr>ID = 9, Color = ''green'', Shape = ''circle'', Category = ''B''\<rparr>,
          \<lparr>ID = 2, Color = ''blue'', Shape = ''square'', Category = ''A''\<rparr>]]
   \<and> slice_read
        [[\<lparr>ID = 1, Color = ''red'', Shape = ''circle'', Category = ''A''\<rparr>,
          \<lparr>ID = 2, Color = ''blue'', Shape = ''square'', Category = ''A''\<rparr>],
         [\<lparr>ID = 9, Color = ''green'', Shape = ''circle'', Category = ''B''\<rparr>,
          \<lparr>ID = 2, Color = ''blue'', Shape = ''square'', Category = ''A''\<rparr>]]
        \<lparr>array = 0, offset = 0, len = 2, cap = 2\<rparr>
     = [\<lparr>ID = 1, Color = ''red'', Shape = ''circle'', Category = ''A''\<rparr>,
        \<lparr>ID = 2, Color = ''blue'', Shape = ''square'', Category = ''A''\<rparr>]
   \<and> New [\<lparr>ID = 1, Color = ''red'', Shape = ''circle'', Category = ''A''\<rparr>,
          \<lparr>ID = 2, Color = ''blue'', Shape = ''square'', Category = ''A''\<rparr>]
     = Inr \<lparr>items = [\<lparr>ID = 1, Color = ''red'', Shape = ''circle'', Category = ''A''\<rparr>,
          \<lparr>ID = 2, Color = ''blue'', Shape = ''square'', Category = ''A''\<rparr>]\<rparr>
   \<and> Filter \<lparr>items = [\<lparr>ID = 1, Color = ''red'', Shape = ''circle'', Category = ''A''\<rparr>,
          \<lparr>ID = 2, Color = ''blue'', Shape = ''square'', Category = ''A''\<rparr>]\<rparr> []
     = [\<lparr>ID = 1, Color = ''red'', Shape = ''circle'', Category = ''A''\<rparr>,
        \<lparr>ID = 2, Color = ''blue'', Shape = ''square'', Category = ''A''\<rparr>]"
proof -
  let ?a = "\<lparr>ID = 1, Color = ''red'', Shape = ''circle'', Category = ''A''\<rparr>"
  let ?b = "\<lparr>ID = 2, Color = ''blue'', Shape = ''square'', Category = ''A''\<rparr>"
  let ?c = "\<lparr>ID = 9, Color = ''green'', Shape = ''circle'', Category = ''B''\<rparr>"
  let ?s = "\<lparr>array = 0, offset = 0, len = 2, cap = 2\<rparr>"
  let ?r = "\<lparr>array = 1, offset = 0, len = 2, cap = 2\<rparr>"
  have h1: "valid_slice [[?a, ?b]] ?s"
    by (simp add: valid_slice_def)
  have h2: "Filter_heap [[?a, ?b]] ?s [] = ([[?a, ?b], [?a, ?b]], ?r)"
    by code_simp
  have h3: "slice_set [[?a, ?b], [?a, ?b]] ?r 0 ?c = Some [[?a, ?b], [?c, ?b]]"
    by (simp add: slice_set_def)
  have h4: "New [?a, ?b] = Inr \<lparr>items = [?a, ?b]\<rparr>"
    by (simp add: New_def Validate_def TrimSpace_examples)
  note t = Filter_empty_copy [OF h1 h2]
  from t have "\<forall>i v h''. slice_set [[?a, ?b], [?a, ?b]] ?r i v = Some h'' \<longrightarrow>
      slice_read h'' ?s = slice_read [[?a, ?b]] ?s
      \<and> slice_read h'' ?r = (slice_read [[?a, ?b]] ?s)[i := v]"
    by (elim conjE)
  from this [THEN spec, THEN spec, THEN spec, THEN mp, OF h3]
  have 1: "slice_read [[?a, ?b], [?c, ?b]] ?s = [?a, ?b]"
    by (simp add: slice_read_def)
  from t have "\<forall>seed S. New seed = Inr S \<longrightarrow> Filter S [] = seed"
    by (elim conjE)
  from this [THEN spec, THEN spec, THEN mp, OF h4]
  have 2: "Filter \<lparr>items = [?a, ?b]\<rparr> [] = [?a, ?b]" .
  from h1 h2 h3 1 h4 2 show ?thesis
    by (intro conjI)
qed

end
